theory Spec2Isabelle
  imports Complex_Main "HOL-Library.Multiset"
begin

section \<open>Python values used by the briefing and editor nodes\<close>

text \<open>
  A Python \<open>str\<close> is a \<open>string\<close>: one \<open>char\<close> per Python character, so \<open>length\<close> is
  Python's \<open>len\<close>. Only characters with code points below 256 are representable; the
  Chinese prompt templates of both nodes are prompt data that no definition below inspects,
  and they are left out.
\<close>

datatype error = ValueError | AttributeError | BackendError | ReferencesError | SendError

text \<open>\<open>c.isspace()\<close> for code points below 256.\<close>

definition isspace :: "char \<Rightarrow> bool" where
  "isspace c \<longleftrightarrow> (of_char c :: nat) \<in> {9, 10, 11, 12, 13, 28, 29, 30, 31, 32, 133, 160}"

text \<open>\<open>s.strip()\<close>: leading and trailing whitespace removed.\<close>

definition strip :: "string \<Rightarrow> string" where
  "strip s = rev (dropWhile isspace (rev (dropWhile isspace s)))"

text \<open>\<open>sep.join(parts)\<close>.\<close>

fun join :: "string \<Rightarrow> string list \<Rightarrow> string" where
  "join sep [] = []"
| "join sep [x] = x"
| "join sep (x # y # ys) = x @ sep @ join sep (y # ys)"

text \<open>\<open>str(n)\<close> for a non-negative integer, as the f-strings render \<open>len(...)\<close> and \<open>i\<close>.\<close>

fun string_of_nat :: "nat \<Rightarrow> string" where
  "string_of_nat n =
     (if n < 10 then [''0123456789'' ! n]
      else string_of_nat (n div 10) @ [''0123456789'' ! (n mod 10)])"

declare string_of_nat.simps [simp del]

section \<open>Documents and category datasets\<close>

text \<open>
  The value stored under \<open>doc['evaluation']['overall_score']\<close>, by what the conversion
  \<open>float(...)\<close> of line 152 does with it: the key (or the whole \<open>evaluation\<close> record) is
  absent, so that \<open>.get('overall_score', '0')\<close> supplies the text \<open>'0'\<close>; \<open>float\<close>
  returns the finite number \<open>r\<close>; or \<open>float\<close> raises \<open>ValueError\<close>, as it does on a text
  that is not a number (\<open>'N/A'\<close>, \<open>'high'\<close>, \<open>''\<close>). Infinities and NaN are not modelled.
\<close>

datatype score_value = Absent | Number rat | NotANumber

text \<open>
  A document is a Python dict; a field that is \<open>None\<close> here is a key that is absent
  (for \<open>raw_content\<close>: absent or \<open>None\<close>, both falsy).
\<close>

record document =
  url :: "string option"
  title :: "string option"
  raw_content :: "string option"
  content :: "string option"
  overall_score :: score_value

text \<open>
  \<open>docs: Union[Dict[str, Any], List[Dict[str, Any]]]\<close>. A dict keeps its insertion
  order, so it is an association list.
\<close>

datatype dataset = DictForm "(string \<times> document) list" | ListForm "document list"

text \<open>\<open>len(docs)\<close> and the truth value of \<open>docs\<close>.\<close>

fun len_docs :: "dataset \<Rightarrow> nat" where
  "len_docs (DictForm kvs) = length kvs"
| "len_docs (ListForm ds) = length ds"

definition nonempty_docs :: "dataset \<Rightarrow> bool" where
  "nonempty_docs docs \<longleftrightarrow> len_docs docs \<noteq> 0"

section \<open>Document selection in \<open>Briefing.generate_category_briefing\<close> (lines 145 to 168)\<close>

definition max_doc_length :: nat where
  "max_doc_length = 12000"

text \<open>The literal \<open>140000\<close> of line 164.\<close>

definition total_limit :: nat where
  "total_limit = 140000"

text \<open>
  Lines 146 to 148: a dict gives its items, a list gives \<open>(doc.get('url', f'doc_{i}'), doc)\<close>
  for \<open>i, doc in enumerate(docs)\<close>.
\<close>

definition items :: "dataset \<Rightarrow> (string \<times> document) list" where
  "items docs =
     (case docs of
        DictForm kvs \<Rightarrow> kvs
      | ListForm ds \<Rightarrow>
          map (\<lambda>(i, doc). (case url doc of Some u \<Rightarrow> u | None \<Rightarrow> ''doc_'' @ string_of_nat i, doc))
            (enumerate 0 ds))"

text \<open>The sort key of line 152.\<close>

fun score :: "document \<Rightarrow> error + rat" where
  "score doc =
     (case overall_score doc of
        Absent \<Rightarrow> Inr 0
      | Number r \<Rightarrow> Inr r
      | NotANumber \<Rightarrow> Inl ValueError)"

text \<open>
  \<open>sorted\<close> computes the key of every item, in order, before it compares any: the first
  key that raises ends the call.
\<close>

fun sort_keys :: "(string \<times> document) list \<Rightarrow> error + rat list" where
  "sort_keys [] = Inr []"
| "sort_keys (x # xs) =
     (case score (snd x) of
        Inl e \<Rightarrow> Inl e
      | Inr k \<Rightarrow> (case sort_keys xs of Inl e \<Rightarrow> Inl e | Inr ks \<Rightarrow> Inr (k # ks)))"

text \<open>
  Lines 150 to 154: \<open>sorted(items, key=..., reverse=True)\<close>. Python's sort is stable, and
  with \<open>reverse=True\<close> it still keeps items of equal key in their original order: it is the
  stable ascending sort on the negated key.
\<close>

definition sorted_items :: "dataset \<Rightarrow> error + (string \<times> document) list" where
  "sorted_items docs =
     (case sort_keys (items docs) of
        Inl e \<Rightarrow> Inl e
      | Inr ks \<Rightarrow> Inr (map snd (sort_key (\<lambda>p. - fst p) (zip ks (items docs)))))"

text \<open>Lines 159 to 163: the block of one document.\<close>

definition doc_content :: "document \<Rightarrow> string" where
  "doc_content doc =
     (let txt = (case raw_content doc of
                   Some c \<Rightarrow> if c \<noteq> [] then c
                             else (case content doc of Some c' \<Rightarrow> c' | None \<Rightarrow> [])
                 | None \<Rightarrow> (case content doc of Some c' \<Rightarrow> c' | None \<Rightarrow> []))
      in if length txt > max_doc_length
         then take max_doc_length txt @ ''... [content truncated]''
         else txt)"

definition doc_entry :: "document \<Rightarrow> string" where
  "doc_entry doc =
     ''Title: '' @ (case title doc of Some t \<Rightarrow> t | None \<Rightarrow> [])
       @ ''\<newline>\<newline>Content: '' @ doc_content doc"

text \<open>
  The loop of lines 158 to 168, with its two variables \<open>doc_texts\<close> and \<open>total_length\<close>;
  \<open>break\<close> returns what was collected.
\<close>

fun collect :: "document list \<Rightarrow> string list \<Rightarrow> nat \<Rightarrow> string list" where
  "collect [] doc_texts total_length = doc_texts"
| "collect (doc # rest) doc_texts total_length =
     (if total_length + length (doc_entry doc) < total_limit
      then collect rest (doc_texts @ [doc_entry doc]) (total_length + length (doc_entry doc))
      else doc_texts)"

text \<open>Lines 145 to 168 as a whole: the blocks that go into the prompt.\<close>

definition doc_texts :: "dataset \<Rightarrow> error + string list" where
  "doc_texts docs =
     (case sorted_items docs of
        Inl e \<Rightarrow> Inl e
      | Inr its \<Rightarrow> Inr (collect (map snd its) [] 0))"

section \<open>Status events and the completion backend\<close>

datatype payload = Text string | Count nat | Flag bool

record status_event =
  ev_job_id :: string
  ev_status :: string
  ev_message :: string
  ev_result :: "(string \<times> payload) list"

text \<open>
  The object under \<open>websocket_manager\<close>, by what its awaited method \<open>send_status_update\<close>
  does with an event: it delivers it and returns (\<open>True\<close>), or it raises (\<open>False\<close>).
\<close>

type_synonym manager = "status_event \<Rightarrow> bool"

text \<open>
  The pattern
  \<^verbatim>\<open>if websocket_manager := d.get('websocket_manager'):
      if job_id := d.get('job_id'):
          await websocket_manager.send_status_update(job_id=..., status=..., message=..., result=...)\<close>
  With a manager and a non-empty job id the event is sent: it is delivered, or the send
  raises and nothing is delivered. Otherwise nothing is sent. The result pairs what the
  statement does (it returns or raises) with the events delivered.
\<close>

definition send_status_update ::
  "manager option \<Rightarrow> string option \<Rightarrow> string \<Rightarrow> string \<Rightarrow> (string \<times> payload) list
     \<Rightarrow> (error + unit) \<times> status_event list" where
  "send_status_update websocket_manager job st msg res =
     (case websocket_manager of
        None \<Rightarrow> (Inr (), [])
      | Some manager \<Rightarrow>
          (case job of
             None \<Rightarrow> (Inr (), [])
           | Some j \<Rightarrow>
               if j \<noteq> []
               then (if manager \<lparr>ev_job_id = j, ev_status = st, ev_message = msg, ev_result = res\<rparr>
                     then (Inr (), [\<lparr>ev_job_id = j, ev_status = st, ev_message = msg, ev_result = res\<rparr>])
                     else (Inl SendError, []))
               else (Inr (), [])))"

text \<open>
  One non-streaming call \<open>await self.openai_client.chat.completions.create(...)\<close>: it raises,
  or it returns a response whose \<open>choices[0].message.content\<close> is a text or \<open>None\<close>.
\<close>

datatype completion = Raises | Returns "string option"

text \<open>
  \<open>response.choices[0].message.content.strip()\<close> after the call: \<open>None.strip()\<close> raises
  \<open>AttributeError\<close>.
\<close>

definition response_content :: "completion \<Rightarrow> error + string" where
  "response_content c =
     (case c of
        Raises \<Rightarrow> Inl BackendError
      | Returns None \<Rightarrow> Inl AttributeError
      | Returns (Some t) \<Rightarrow> Inr (strip t))"

section \<open>\<open>Briefing.generate_category_briefing\<close>\<close>

record research_context =
  ctx_company :: string
  ctx_industry :: string
  ctx_hq_location :: string
  ctx_websocket_manager :: "manager option"
  ctx_job_id :: "string option"

text \<open>The returned dict \<open>{'content': ...}\<close>.\<close>

record briefing =
  briefing_content :: string

text \<open>Lines 32 to 44: the start event.\<close>

definition briefing_start ::
  "research_context \<Rightarrow> string \<Rightarrow> dataset \<Rightarrow> (error + unit) \<times> status_event list" where
  "briefing_start ctx category docs =
     send_status_update (ctx_websocket_manager ctx) (ctx_job_id ctx) ''briefing_start''
       (''Generating '' @ category @ '' briefing'')
       [(''step'', Text ''Briefing''), (''category'', Text category), (''total_docs'', Count (len_docs docs))]"

text \<open>Lines 189 to 200: the completion event.\<close>

definition briefing_complete :: "research_context \<Rightarrow> string \<Rightarrow> (error + unit) \<times> status_event list" where
  "briefing_complete ctx category =
     send_status_update (ctx_websocket_manager ctx) (ctx_job_id ctx) ''briefing_complete''
       (''Completed '' @ category @ '' briefing'')
       [(''step'', Text ''Briefing''), (''category'', Text category)]"

text \<open>
  Lines 177 to 205, given how the backend call ends: the \<open>try\<close> block and its handler, which
  returns \<open>{'content': ''}\<close> for every exception, that of the completion send included.
\<close>

definition briefing_reply :: "research_context \<Rightarrow> string \<Rightarrow> completion \<Rightarrow> briefing \<times> status_event list" where
  "briefing_reply ctx category c =
     (case response_content c of
        Inl e \<Rightarrow> (\<lparr>briefing_content = []\<rparr>, [])
      | Inr txt \<Rightarrow>
          if txt = [] then (\<lparr>briefing_content = []\<rparr>, [])
          else (case briefing_complete ctx category of
                  (Inl e, evs) \<Rightarrow> (\<lparr>briefing_content = []\<rparr>, evs)
                | (Inr u, evs) \<Rightarrow> (\<lparr>briefing_content = txt\<rparr>, evs)))"

text \<open>
  The whole call. The start event is sent first, outside the \<open>try\<close> block, so a send that
  raises leaves the function; so does what the document selection of lines 145 to 168
  raises; the fourth argument is how the one backend call ends. The result pairs what the
  call returns or raises with the events delivered.
\<close>

definition generate_category_briefing ::
  "dataset \<Rightarrow> string \<Rightarrow> research_context \<Rightarrow> completion \<Rightarrow> (error + briefing) \<times> status_event list" where
  "generate_category_briefing docs category ctx c =
     (case briefing_start ctx category docs of
        (Inl e, evs) \<Rightarrow> (Inl e, evs)
      | (Inr u, evs) \<Rightarrow>
          (case doc_texts docs of
             Inl e \<Rightarrow> (Inl e, evs)
           | Inr blocks \<Rightarrow>
               (Inr (fst (briefing_reply ctx category c)), evs @ snd (briefing_reply ctx category c))))"

section \<open>The pipeline state\<close>

text \<open>\<open>state['editor']\<close>: a dict, or a value of another type.\<close>

datatype editor_value = EditorDict "string \<rightharpoonup> string" | EditorOther

text \<open>
  \<open>ResearchState\<close>, a dict with typed keys. \<open>None\<close> is an absent key; \<open>references\<close> is the
  list \<open>state.get('references', [])\<close>.
\<close>

record research_state =
  company :: "string option"
  industry :: "string option"
  hq_location :: "string option"
  websocket_manager :: "manager option"
  job_id :: "string option"
  curated_company_data :: "dataset option"
  curated_revenue_data :: "dataset option"
  curated_financial_data :: "dataset option"
  curated_industry_data :: "dataset option"
  company_briefing :: "string option"
  revenue_briefing :: "string option"
  financial_briefing :: "string option"
  industry_briefing :: "string option"
  briefings :: "(string \<times> string) list option"
  references :: "string list"
  messages :: "string list option"
  report :: "string option"
  status :: "string option"
  editor :: "editor_value option"

text \<open>\<open>state.get(key, {})\<close> for the curated dataset keys.\<close>

definition get_curated :: "research_state \<Rightarrow> string \<Rightarrow> dataset option" where
  "get_curated s key =
     (if key = ''curated_company_data'' then curated_company_data s
      else if key = ''curated_revenue_data'' then curated_revenue_data s
      else if key = ''curated_financial_data'' then curated_financial_data s
      else if key = ''curated_industry_data'' then curated_industry_data s
      else None)"

text \<open>\<open>state.get(key)\<close> and \<open>state[key] = v\<close> for the four briefing keys.\<close>

definition get_briefing :: "research_state \<Rightarrow> string \<Rightarrow> string option" where
  "get_briefing s key =
     (if key = ''company_briefing'' then company_briefing s
      else if key = ''revenue_briefing'' then revenue_briefing s
      else if key = ''financial_briefing'' then financial_briefing s
      else if key = ''industry_briefing'' then industry_briefing s
      else None)"

definition set_briefing :: "string \<Rightarrow> string \<Rightarrow> research_state \<Rightarrow> research_state" where
  "set_briefing key v s =
     (if key = ''company_briefing'' then s\<lparr>company_briefing := Some v\<rparr>
      else if key = ''revenue_briefing'' then s\<lparr>revenue_briefing := Some v\<rparr>
      else if key = ''financial_briefing'' then s\<lparr>financial_briefing := Some v\<rparr>
      else if key = ''industry_briefing'' then s\<lparr>industry_briefing := Some v\<rparr>
      else s)"

text \<open>\<open>d[k] = v\<close> on an insertion-ordered dict.\<close>

fun dict_set :: "'k \<Rightarrow> 'v \<Rightarrow> ('k \<times> 'v) list \<Rightarrow> ('k \<times> 'v) list" where
  "dict_set k v [] = [(k, v)]"
| "dict_set k v (p # ps) = (if fst p = k then (k, v) # ps else p # dict_set k v ps)"

section \<open>\<open>Briefing.create_briefings\<close>\<close>

text \<open>The dict that lines 251 to 256 append to \<open>briefing_tasks\<close>.\<close>

record task =
  category :: string
  briefing_key :: string
  data_field :: string
  curated_data :: dataset

text \<open>Lines 232 to 237, in the dict's order: data field, category, briefing key.\<close>

definition categories :: "(string \<times> string \<times> string) list" where
  "categories =
     [(''company_data'', ''company'', ''company_briefing''),
      (''revenue_data'', ''revenue'', ''revenue_briefing''),
      (''financial_data'', ''financial'', ''financial_briefing''),
      (''industry_data'', ''industry'', ''industry_briefing'')]"

text \<open>
  The loop of lines 243 to 259 over the entries still to visit: a truthy dataset gives a
  task, a missing or empty one sets the briefing key to \<open>""\<close>.
\<close>

fun build_tasks ::
  "(string \<times> string \<times> string) list \<Rightarrow> research_state \<Rightarrow> task list \<Rightarrow> task list \<times> research_state" where
  "build_tasks [] s briefing_tasks = (briefing_tasks, s)"
| "build_tasks ((field, cat, key) # rest) s briefing_tasks =
     (case get_curated s (''curated_'' @ field) of
        Some docs \<Rightarrow>
          if nonempty_docs docs
          then build_tasks rest s
                 (briefing_tasks @ [\<lparr>category = cat, briefing_key = key, data_field = field, curated_data = docs\<rparr>])
          else build_tasks rest (set_briefing key [] s) briefing_tasks
      | None \<Rightarrow> build_tasks rest (set_briefing key [] s) briefing_tasks)"

text \<open>Lines 222 to 228.\<close>

definition briefing_context :: "research_state \<Rightarrow> research_context" where
  "briefing_context s =
     \<lparr>ctx_company = (case company s of Some c \<Rightarrow> c | None \<Rightarrow> ''Unknown Company''),
      ctx_industry = (case industry s of Some i \<Rightarrow> i | None \<Rightarrow> ''Unknown''),
      ctx_hq_location = (case hq_location s of Some h \<Rightarrow> h | None \<Rightarrow> ''Unknown''),
      ctx_websocket_manager = websocket_manager s,
      ctx_job_id = job_id s\<rparr>"

text \<open>
  \<open>asyncio.gather\<close> runs one \<open>process_briefing\<close> coroutine per task; they interleave at
  their \<open>await\<close>s. A coroutine waits at \<open>async with briefing_semaphore\<close>, is admitted (it
  holds a slot and sends its start event), has its backend call outstanding, and ends: it
  has written its result and left the \<open>with\<close> block, or the start send or the document
  selection has raised and the exception has left the block.
\<close>

datatype phase = Waiting | Admitted | Calling | Finished | Failed error

text \<open>
  What the coroutines share: the state object, the local dict \<open>briefings\<close>, the events sent
  so far, the semaphore's counter, and the phase of each task.
\<close>

record gather_state =
  g_state :: research_state
  g_briefings :: "(string \<times> string) list"
  g_sent :: "status_event list"
  g_semaphore :: nat
  g_phases :: "phase list"

text \<open>
  The moves of task \<open>i\<close>: \<open>Acquire\<close> passes \<open>async with\<close>, possible only while the counter
  of \<open>asyncio.Semaphore\<close> is positive; \<open>Prepare\<close> runs \<open>generate_category_briefing\<close> up to
  its backend call; \<open>Reply i c\<close> is that call ending as \<open>c\<close>, after which the task runs to
  the end of \<open>process_briefing\<close> (lines 275 to 287) and releases its slot.
\<close>

datatype action = Acquire nat | Prepare nat | Reply nat completion

definition step :: "task list \<Rightarrow> research_context \<Rightarrow> action \<Rightarrow> gather_state \<Rightarrow> gather_state option" where
  "step tasks ctx a g =
     (case a of
        Acquire i \<Rightarrow>
          if i < length tasks \<and> i < length (g_phases g) \<and> g_phases g ! i = Waiting \<and> 0 < g_semaphore g
          then Some (g\<lparr>g_semaphore := g_semaphore g - 1, g_phases := (g_phases g)[i := Admitted]\<rparr>)
          else None
      | Prepare i \<Rightarrow>
          if i < length tasks \<and> i < length (g_phases g) \<and> g_phases g ! i = Admitted
          then (case briefing_start ctx (category (tasks ! i)) (curated_data (tasks ! i)) of
                  (Inl e, evs) \<Rightarrow>
                    Some (g\<lparr>g_sent := g_sent g @ evs,
                            g_semaphore := g_semaphore g + 1,
                            g_phases := (g_phases g)[i := Failed e]\<rparr>)
                | (Inr u, evs) \<Rightarrow>
                    (case doc_texts (curated_data (tasks ! i)) of
                       Inl e \<Rightarrow>
                         Some (g\<lparr>g_sent := g_sent g @ evs,
                                 g_semaphore := g_semaphore g + 1,
                                 g_phases := (g_phases g)[i := Failed e]\<rparr>)
                     | Inr blocks \<Rightarrow>
                         Some (g\<lparr>g_sent := g_sent g @ evs,
                                 g_phases := (g_phases g)[i := Calling]\<rparr>)))
          else None
      | Reply i c \<Rightarrow>
          if i < length tasks \<and> i < length (g_phases g) \<and> g_phases g ! i = Calling
          then (let result = briefing_reply ctx (category (tasks ! i)) c;
                    txt = briefing_content (fst result)
                in Some (g\<lparr>g_state := (if txt \<noteq> [] then set_briefing (briefing_key (tasks ! i)) txt (g_state g)
                                       else set_briefing (briefing_key (tasks ! i)) [] (g_state g)),
                           g_briefings := (if txt \<noteq> [] then dict_set (category (tasks ! i)) txt (g_briefings g)
                                           else g_briefings g),
                           g_sent := g_sent g @ snd result,
                           g_semaphore := g_semaphore g + 1,
                           g_phases := (g_phases g)[i := Finished]\<rparr>))
          else None)"

text \<open>A schedule is a list of moves; a move that is not possible makes it no execution.\<close>

fun run_schedule :: "task list \<Rightarrow> research_context \<Rightarrow> action list \<Rightarrow> gather_state \<Rightarrow> gather_state option" where
  "run_schedule tasks ctx [] g = Some g"
| "run_schedule tasks ctx (a # as) g =
     (case step tasks ctx a g of None \<Rightarrow> None | Some g' \<Rightarrow> run_schedule tasks ctx as g')"

text \<open>The tasks that hold a slot of the semaphore, and those whose backend call is outstanding.\<close>

definition holding :: "gather_state \<Rightarrow> nat" where
  "holding g = length (filter (\<lambda>p. p = Admitted \<or> p = Calling) (g_phases g))"

definition in_flight :: "gather_state \<Rightarrow> nat" where
  "in_flight g = length (filter (\<lambda>p. p = Calling) (g_phases g))"

text \<open>Line 264 and the start of \<open>gather\<close>: \<open>asyncio.Semaphore(2)\<close>, every task waiting.\<close>

definition start_gather :: "task list \<Rightarrow> research_state \<Rightarrow> status_event list \<Rightarrow> gather_state" where
  "start_gather tasks s evs =
     \<lparr>g_state = s, g_briefings = [], g_sent = evs, g_semaphore = 2,
      g_phases = replicate (length tasks) Waiting\<rparr>"

text \<open>\<open>gather\<close> raises the exception of a task that failed.\<close>

fun first_failure :: "phase list \<Rightarrow> error option" where
  "first_failure [] = None"
| "first_failure (Failed e # ps) = Some e"
| "first_failure (p # ps) = first_failure ps"

text \<open>Lines 239 to 259: the loop that builds the tasks.\<close>

definition prepare_briefings :: "research_state \<Rightarrow> task list \<times> research_state" where
  "prepare_briefings s = build_tasks categories s []"

text \<open>Lines 213 to 220: the first send, outside every \<open>try\<close> block, and the events it delivers.\<close>

definition starting_send :: "research_state \<Rightarrow> (error + unit) \<times> status_event list" where
  "starting_send s =
     send_status_update (websocket_manager s) (job_id s) ''processing'' ''Starting research briefings''
       [(''step'', Text ''Briefing'')]"

definition starting_event :: "research_state \<Rightarrow> status_event list" where
  "starting_event s = snd (starting_send s)"

text \<open>
  The whole method under a schedule for its tasks: \<open>None\<close> when the schedule is no
  execution or leaves a task unfinished, else what the method returns or raises, with the
  events delivered. When the first send raises, the method raises before it builds a task.
\<close>

definition create_briefings ::
  "action list \<Rightarrow> research_state \<Rightarrow> ((error + research_state) \<times> status_event list) option" where
  "create_briefings sched s =
     (case fst (starting_send s) of
        Inl e \<Rightarrow> Some (Inl e, starting_event s)
      | Inr u \<Rightarrow>
          (let tasks = fst (prepare_briefings s); s1 = snd (prepare_briefings s)
           in if tasks = [] then Some (Inr (s1\<lparr>briefings := Some []\<rparr>), starting_event s)
              else (case run_schedule tasks (briefing_context s) sched (start_gather tasks s1 (starting_event s)) of
                      None \<Rightarrow> None
                    | Some g \<Rightarrow>
                        (case first_failure (g_phases g) of
                           Some e \<Rightarrow> Some (Inl e, g_sent g)
                         | None \<Rightarrow>
                             if list_all (\<lambda>p. p = Finished) (g_phases g)
                             then Some (Inr ((g_state g)\<lparr>briefings := Some (g_briefings g)\<rparr>), g_sent g)
                             else None))))"

section \<open>The Editor node\<close>

text \<open>
  \<open>self.context\<close> of the Editor, which \<open>compile_briefings\<close> sets from the state (lines 39
  to 43) and the other methods read.
\<close>

record editor_context =
  ec_company :: string
  ec_industry :: string
  ec_hq_location :: string

text \<open>
  The streaming call of \<open>content_sweep\<close>: \<open>create(..., stream=True)\<close> raises, or it gives a
  stream. Reading the stream gives a chunk with a text delta (or none), the chunk whose
  \<open>finish_reason\<close> is \<open>"stop"\<close>, or raises.
\<close>

datatype stream_item = Delta "string option" | Stop | Broken

datatype stream = CreateRaises | Opened "stream_item list"

text \<open>
  What the Editor's collaborators do during one run: how the compilation call ends, how the
  streaming call goes, and what \<open>format_references_section\<close> (not part of these files)
  returns or raises for the state's references.
\<close>

record collaborators =
  compile_reply :: completion
  sweep_reply :: stream
  references_section :: "error + string"

subsection \<open>\<open>Editor.compile_content\<close>\<close>

definition compile_content ::
  "editor_context \<Rightarrow> research_state \<Rightarrow> (string \<times> string) list \<Rightarrow> collaborators \<Rightarrow> error + string" where
  "compile_content ectx s brs env =
     (let combined_content = join ''\<newline>\<newline>'' (map snd brs)
      in case (if references s \<noteq> [] then references_section env else Inr []) of
           Inl e \<Rightarrow> Inl e
         | Inr reference_text \<Rightarrow>
             (case response_content (compile_reply env) of
                Inl e \<Rightarrow> Inr (strip combined_content)
              | Inr initial_report \<Rightarrow>
                  Inr (if reference_text \<noteq> [] then initial_report @ ''\<newline>\<newline>'' @ reference_text
                       else initial_report)))"

subsection \<open>\<open>Editor.content_sweep\<close>\<close>

text \<open>Line 384: the buffer holds a sentence end or a line break and more than 10 characters.\<close>

definition flush_due :: "string \<Rightarrow> bool" where
  "flush_due buffer \<longleftrightarrow> list_ex (\<lambda>c. c \<in> set buffer) ''.!?\<newline>'' \<and> length buffer > 10"

definition report_chunk :: "research_state \<Rightarrow> string \<Rightarrow> (error + unit) \<times> status_event list" where
  "report_chunk s buffer =
     send_status_update (websocket_manager s) (job_id s) ''report_chunk'' ''Formatting final report''
       [(''chunk'', Text buffer), (''step'', Text ''Editor'')]"

text \<open>
  The loop of lines 362 to 396 over the rest of the stream, with \<open>accumulated_text\<close> and
  \<open>buffer\<close>: the accumulated text or the exception (of the stream or of a chunk send), and
  the chunk events delivered.
\<close>

fun sweep_chunks ::
  "research_state \<Rightarrow> stream_item list \<Rightarrow> string \<Rightarrow> string \<Rightarrow> (error + string) \<times> status_event list" where
  "sweep_chunks s [] accumulated_text buffer = (Inr accumulated_text, [])"
| "sweep_chunks s (Broken # rest) accumulated_text buffer = (Inl BackendError, [])"
| "sweep_chunks s (Stop # rest) accumulated_text buffer =
     (if buffer \<noteq> []
      then (case fst (report_chunk s buffer) of
              Inl e \<Rightarrow> (Inl e, snd (report_chunk s buffer))
            | Inr u \<Rightarrow> (Inr accumulated_text, snd (report_chunk s buffer)))
      else (Inr accumulated_text, []))"
| "sweep_chunks s (Delta None # rest) accumulated_text buffer =
     sweep_chunks s rest accumulated_text buffer"
| "sweep_chunks s (Delta (Some chunk_text) # rest) accumulated_text buffer =
     (if chunk_text = [] then sweep_chunks s rest accumulated_text buffer
      else if flush_due (buffer @ chunk_text)
      then (case fst (report_chunk s (buffer @ chunk_text)) of
              Inl e \<Rightarrow> (Inl e, snd (report_chunk s (buffer @ chunk_text)))
            | Inr u \<Rightarrow>
                (fst (sweep_chunks s rest (accumulated_text @ chunk_text) []),
                 snd (report_chunk s (buffer @ chunk_text))
                   @ snd (sweep_chunks s rest (accumulated_text @ chunk_text) [])))
      else sweep_chunks s rest (accumulated_text @ chunk_text) (buffer @ chunk_text))"

text \<open>
  The \<open>try\<close> block of lines 342 to 398 and its handler (lines 399 to 401), which returns
  \<open>(content or "").strip()\<close> for every exception.
\<close>

definition content_sweep ::
  "editor_context \<Rightarrow> research_state \<Rightarrow> string \<Rightarrow> stream \<Rightarrow> (error + string) \<times> status_event list" where
  "content_sweep ectx s txt st =
     (case st of
        CreateRaises \<Rightarrow> (Inr (strip txt), [])
      | Opened chunks \<Rightarrow>
          (case fst (sweep_chunks s chunks [] []) of
             Inl e \<Rightarrow> (Inr (strip txt), snd (sweep_chunks s chunks [] []))
           | Inr accumulated_text \<Rightarrow> (Inr (strip accumulated_text), snd (sweep_chunks s chunks [] []))))"

subsection \<open>\<open>Editor.edit_report\<close>\<close>

definition editor_event ::
  "research_state \<Rightarrow> string \<Rightarrow> string \<Rightarrow> (error + unit) \<times> status_event list" where
  "editor_event s msg substep =
     send_status_update (websocket_manager s) (job_id s) ''processing'' msg
       [(''step'', Text ''Editor''), (''substep'', Text substep)]"

text \<open>
  \<open>state['editor']['report'] = r\<close> after lines 174 and 175 (and 407 and 408) have made
  \<open>state['editor']\<close> a dict.
\<close>

definition mirror_report :: "string \<Rightarrow> research_state \<Rightarrow> research_state" where
  "mirror_report r s =
     s\<lparr>editor := Some (EditorDict ((case editor s of
                                       Some (EditorDict d) \<Rightarrow> d
                                     | Some EditorOther \<Rightarrow> Map.empty
                                     | None \<Rightarrow> Map.empty)(''report'' \<mapsto> r)))\<rparr>"

text \<open>Lines 171 to 176.\<close>

definition store_report :: "string \<Rightarrow> research_state \<Rightarrow> research_state" where
  "store_report final_report s =
     mirror_report final_report (s\<lparr>report := Some final_report, status := Some ''editor_complete''\<rparr>)"

definition editor_complete ::
  "editor_context \<Rightarrow> research_state \<Rightarrow> string \<Rightarrow> (error + unit) \<times> status_event list" where
  "editor_complete ectx s final_report =
     send_status_update (websocket_manager s) (job_id s) ''editor_complete'' ''Research report completed''
       [(''step'', Text ''Editor''), (''report'', Text final_report), (''company'', Text (ec_company ectx)),
        (''is_final'', Flag True), (''status'', Text ''completed'')]"

text \<open>
  The method mutates the state object and sends events whether it returns or not; its
  handler (lines 195 to 197) returns \<open>""\<close> for every exception of the body, those of its
  sends included. The last send comes after the report is stored, so when it raises the
  state keeps the report.
\<close>

definition edit_report ::
  "editor_context \<Rightarrow> research_state \<Rightarrow> (string \<times> string) list \<Rightarrow> collaborators
     \<Rightarrow> (error + string) \<times> research_state \<times> status_event list" where
  "edit_report ectx s brs env =
     (case editor_event s ''Compiling initial research report'' ''compilation'' of
        (Inl e, ev1) \<Rightarrow> (Inr [], s, ev1)
      | (Inr u1, ev1) \<Rightarrow>
          (case compile_content ectx s brs env of
             Inl e \<Rightarrow> (Inr [], s, ev1)
           | Inr edited_report \<Rightarrow>
               if edited_report = [] then (Inr [], s, ev1)
               else
                 (case editor_event s ''Cleaning up and organizing report'' ''cleanup'' of
                    (Inl e, ev2) \<Rightarrow> (Inr [], s, ev1 @ ev2)
                  | (Inr u2, ev2) \<Rightarrow>
                      (case editor_event s ''Formatting final report'' ''format'' of
                         (Inl e, ev3) \<Rightarrow> (Inr [], s, ev1 @ ev2 @ ev3)
                       | (Inr u3, ev3) \<Rightarrow>
                           (let swept = content_sweep ectx s edited_report (sweep_reply env)
                            in case fst swept of
                                 Inl e \<Rightarrow> (Inr [], s, ev1 @ ev2 @ ev3 @ snd swept)
                               | Inr final_report \<Rightarrow>
                                   if strip final_report = []
                                   then (Inr [], s, ev1 @ ev2 @ ev3 @ snd swept)
                                   else
                                     (case editor_complete ectx s final_report of
                                        (Inl e, ev4) \<Rightarrow>
                                          (Inr [], store_report final_report s,
                                           ev1 @ ev2 @ ev3 @ snd swept @ ev4)
                                      | (Inr u4, ev4) \<Rightarrow>
                                          (Inr final_report, store_report final_report s,
                                           ev1 @ ev2 @ ev3 @ snd swept @ ev4)))))))"

subsection \<open>\<open>Editor.compile_briefings\<close> and \<open>Editor.run\<close>\<close>

text \<open>Lines 67 to 72, in the dict's order: category, state key.\<close>

definition briefing_keys :: "(string \<times> string) list" where
  "briefing_keys =
     [(''company'', ''company_briefing''),
      (''industry'', ''industry_briefing''),
      (''financial'', ''financial_briefing''),
      (''revenue'', ''revenue_briefing'')]"

text \<open>
  The loop of lines 88 to 94, with \<open>individual_briefings\<close> and \<open>msg\<close>. A briefing is
  available when its key holds a non-empty text.
\<close>

fun collect_briefings ::
  "(string \<times> string) list \<Rightarrow> research_state \<Rightarrow> (string \<times> string) list \<Rightarrow> string list
     \<Rightarrow> (string \<times> string) list \<times> string list" where
  "collect_briefings [] s individual_briefings msg = (individual_briefings, msg)"
| "collect_briefings ((cat, key) # rest) s individual_briefings msg =
     (case get_briefing s key of
        Some txt \<Rightarrow>
          if txt \<noteq> []
          then collect_briefings rest s (dict_set cat txt individual_briefings)
                 (msg @ [''Found '' @ cat @ '' briefing ('' @ string_of_nat (length txt) @ '' characters)''])
          else collect_briefings rest s individual_briefings (msg @ [''No '' @ cat @ '' briefing available''])
      | None \<Rightarrow> collect_briefings rest s individual_briefings (msg @ [''No '' @ cat @ '' briefing available'']))"

definition make_editor_context :: "research_state \<Rightarrow> editor_context" where
  "make_editor_context s =
     \<lparr>ec_company = (case company s of Some c \<Rightarrow> c | None \<Rightarrow> ''Unknown Company''),
      ec_industry = (case industry s of Some i \<Rightarrow> i | None \<Rightarrow> ''Unknown''),
      ec_hq_location = (case hq_location s of Some h \<Rightarrow> h | None \<Rightarrow> ''Unknown'')\<rparr>"

text \<open>
  Line 108: \<open>state.setdefault('messages', []).append(AIMessage(content="\n".join(msg)))\<close>;
  a message is its content.
\<close>

definition append_message :: "string list \<Rightarrow> research_state \<Rightarrow> research_state" where
  "append_message msg s =
     s\<lparr>messages := Some ((case messages s of Some ms \<Rightarrow> ms | None \<Rightarrow> []) @ [join ''\<newline>'' msg])\<rparr>"

text \<open>
  The first line of the log and the line for no briefings start with a pictograph
  (U+1F4D1; U+26A0 U+FE0F) in the source; it has no \<open>char\<close> and is left out of the text.
\<close>

definition log_header :: "string \<Rightarrow> string" where
  "log_header company_name = '' Compiling final report for '' @ company_name @ ''...''"

text \<open>
  The two sends of lines 45 to 56 and 74 to 85 come before the only \<open>try\<close> block of the
  method (line 100) and before line 108: when one raises, the method raises and no message
  is appended.
\<close>

definition compile_briefings ::
  "research_state \<Rightarrow> collaborators \<Rightarrow> (error + research_state) \<times> status_event list" where
  "compile_briefings s env =
     (let ectx = make_editor_context s
      in case editor_event s (''Starting report compilation for '' @ ec_company ectx) ''initialization'' of
           (Inl e, ev1) \<Rightarrow> (Inl e, ev1)
         | (Inr u1, ev1) \<Rightarrow>
             (case editor_event s ''Collecting section briefings'' ''collecting_briefings'' of
                (Inl e, ev2) \<Rightarrow> (Inl e, ev1 @ ev2)
              | (Inr u2, ev2) \<Rightarrow>
                  (let found = collect_briefings briefing_keys s [] [log_header (ec_company ectx)]
                   in if fst found = []
                      then (Inr (append_message
                                   (snd found @ [''\<newline> No briefing sections available to compile'']) s),
                            ev1 @ ev2)
                      else (case edit_report ectx s (fst found) env of
                              (Inl e, s', evs) \<Rightarrow> (Inr (append_message (snd found) s'), ev1 @ ev2 @ evs)
                            | (Inr compiled_report, s', evs) \<Rightarrow>
                                (Inr (append_message (snd found) s'), ev1 @ ev2 @ evs)))))"

text \<open>Lines 403 to 410.\<close>

definition editor_run ::
  "research_state \<Rightarrow> collaborators \<Rightarrow> (error + research_state) \<times> status_event list" where
  "editor_run s env =
     (case compile_briefings s env of
        (Inl e, evs) \<Rightarrow> (Inl e, evs)
      | (Inr s', evs) \<Rightarrow>
          (case report s' of
             Some r \<Rightarrow> (Inr (mirror_report r s'), evs)
           | None \<Rightarrow> (Inr s', evs)))"

section \<open>Notions used to state the properties\<close>

text \<open>The sort key of a document whose conversion succeeds (\<open>0\<close> stands in where it raises).\<close>

definition numeric_score :: "document \<Rightarrow> rat" where
  "numeric_score doc = (case score doc of Inr r \<Rightarrow> r | Inl e \<Rightarrow> 0)"

text \<open>
  The content of a document before it is cut: \<open>doc.get('raw_content') or doc.get('content', '')\<close>
  of line 160.
\<close>

definition original_content :: "document \<Rightarrow> string" where
  "original_content doc =
     (case raw_content doc of
        Some c \<Rightarrow> if c \<noteq> [] then c else (case content doc of Some c' \<Rightarrow> c' | None \<Rightarrow> [])
      | None \<Rightarrow> (case content doc of Some c' \<Rightarrow> c' | None \<Rightarrow> []))"

text \<open>The context names an observer: a manager and a non-empty job id.\<close>

definition observed :: "research_context \<Rightarrow> bool" where
  "observed ctx \<longleftrightarrow>
     ctx_websocket_manager ctx \<noteq> None \<and> (case ctx_job_id ctx of Some j \<Rightarrow> j \<noteq> [] | None \<Rightarrow> False)"

text \<open>The backend call succeeds: it returns a text that is not blank.\<close>

definition succeeds :: "completion \<Rightarrow> bool" where
  "succeeds c \<longleftrightarrow> (case c of Raises \<Rightarrow> False | Returns None \<Rightarrow> False | Returns (Some t) \<Rightarrow> strip t \<noteq> [])"

text \<open>A text with no whitespace at either end.\<close>

definition trimmed :: "string \<Rightarrow> bool" where
  "trimmed s \<longleftrightarrow> s = [] \<or> (\<not> isspace (hd s) \<and> \<not> isspace (last s))"

text \<open>
  The briefings that \<open>compile_briefings\<close> finds: for the categories company, industry,
  financial, revenue in this order, the text of the state key when it is not empty.
\<close>

definition available_briefings :: "research_state \<Rightarrow> (string \<times> string) list" where
  "available_briefings s =
     concat (map (\<lambda>(cat, key). case get_briefing s key of
                                   Some txt \<Rightarrow> if txt \<noteq> [] then [(cat, txt)] else []
                                 | None \<Rightarrow> [])
               briefing_keys)"

text \<open>Reading the stream raises before the chunk that stops it is reached.\<close>

fun raises_before_stop :: "stream_item list \<Rightarrow> bool" where
  "raises_before_stop [] = False"
| "raises_before_stop (Broken # rest) = True"
| "raises_before_stop (Stop # rest) = False"
| "raises_before_stop (Delta d # rest) = raises_before_stop rest"

text \<open>The curated dataset of a data field is missing or empty.\<close>

definition skipped :: "research_state \<Rightarrow> string \<Rightarrow> bool" where
  "skipped s field \<longleftrightarrow>
     (case get_curated s (''curated_'' @ field) of None \<Rightarrow> True | Some docs \<Rightarrow> \<not> nonempty_docs docs)"

text \<open>An event that names the category in its result, as both briefing events do.\<close>

definition about_category :: "string \<Rightarrow> status_event \<Rightarrow> bool" where
  "about_category cat e \<longleftrightarrow> (''category'', Text cat) \<in> set (ev_result e)"

text \<open>The tasks that have ended by writing their result.\<close>

definition finished :: "gather_state \<Rightarrow> nat" where
  "finished g = length (filter (\<lambda>p. p = Finished) (g_phases g))"

text \<open>
  The invariant of the semaphore: every task has a phase, and the slots held and the
  counter add up to the capacity.
\<close>

definition slots_ok :: "task list \<Rightarrow> gather_state \<Rightarrow> bool" where
  "slots_ok tasks g \<longleftrightarrow> length (g_phases g) = length tasks \<and> holding g + g_semaphore g = 2"

section \<open>Example inputs\<close>

definition example_docs :: dataset where
  "example_docs = DictForm
     [(''u1'', \<lparr>url = None, title = Some ''A'', raw_content = None, content = Some ''low'', overall_score = Number (1/2)\<rparr>),
      (''u2'', \<lparr>url = None, title = Some ''B'', raw_content = Some ''top'', content = None, overall_score = Number 9\<rparr>),
      (''u3'', \<lparr>url = None, title = None, raw_content = Some '''', content = Some ''mid'', overall_score = Absent\<rparr>),
      (''u4'', \<lparr>url = None, title = Some ''D'', raw_content = None, content = None, overall_score = Number (1/2)\<rparr>)]"

definition unscored_docs :: dataset where
  "unscored_docs = ListForm
     [\<lparr>url = Some ''u1'', title = Some ''A'', raw_content = None, content = Some ''text'', overall_score = Number 3\<rparr>,
      \<lparr>url = None, title = Some ''B'', raw_content = None, content = Some ''text'', overall_score = NotANumber\<rparr>]"

definition long_title_docs :: dataset where
  "long_title_docs = ListForm
     [\<lparr>url = None, title = Some (replicate 140000 CHR ''t''), raw_content = None, content = Some ''text'', overall_score = Number 9\<rparr>]"

text \<open>
  Three documents: a short one of score 1, then one of score 9 whose content has 150000
  characters, more than the whole limit, then another of score 9.
\<close>

definition long_content_docs :: dataset where
  "long_content_docs = DictForm
     [(''u1'', \<lparr>url = None, title = Some ''S'', raw_content = None, content = Some ''short'',
                 overall_score = Number 1\<rparr>),
      (''u2'', \<lparr>url = None, title = Some ''L'', raw_content = Some (replicate 150000 CHR ''x''),
                 content = Some ''summary'', overall_score = Number 9\<rparr>),
      (''u3'', \<lparr>url = None, title = Some ''T'', raw_content = None, content = Some ''tie'',
                 overall_score = Number 9\<rparr>)]"

text \<open>A manager that delivers every event, and one whose every send raises.\<close>

definition delivering :: manager where
  "delivering e = True"

definition raising :: manager where
  "raising e = False"

definition observed_context :: research_context where
  "observed_context =
     \<lparr>ctx_company = ''Acme'', ctx_industry = ''Tools'', ctx_hq_location = ''Unknown'',
      ctx_websocket_manager = Some delivering, ctx_job_id = Some ''job-1''\<rparr>"

definition unobserved_context :: research_context where
  "unobserved_context =
     \<lparr>ctx_company = ''Acme'', ctx_industry = ''Tools'', ctx_hq_location = ''Unknown'',
      ctx_websocket_manager = None, ctx_job_id = None\<rparr>"

text \<open>A state with no key set.\<close>

definition empty_state :: research_state where
  "empty_state =
     \<lparr>company = None, industry = None, hq_location = None, websocket_manager = None, job_id = None,
      curated_company_data = None, curated_revenue_data = None, curated_financial_data = None,
      curated_industry_data = None, company_briefing = None, revenue_briefing = None,
      financial_briefing = None, industry_briefing = None, briefings = None, references = [],
      messages = None, report = None, status = None, editor = None\<rparr>"

text \<open>Collaborators that all fail: both backend calls and the reference formatter raise.\<close>

definition failing_collaborators :: collaborators where
  "failing_collaborators =
     \<lparr>compile_reply = Raises, sweep_reply = CreateRaises, references_section = Inl ReferencesError\<rparr>"

text \<open>A state with two briefings, for the company and the financial category.\<close>

definition two_briefings_state :: research_state where
  "two_briefings_state =
     empty_state\<lparr>company := Some ''Acme'', company_briefing := Some ''Acme makes tools'',
                  financial_briefing := Some ''Raised 5M''\<rparr>"

text \<open>The same state with a job id and an observer whose every send raises.\<close>

definition raising_observer_state :: research_state where
  "raising_observer_state =
     two_briefings_state\<lparr>websocket_manager := Some raising, job_id := Some ''job-1''\<rparr>"

text \<open>A state that already holds an empty report, and no briefing.\<close>

definition blank_report_state :: research_state where
  "blank_report_state = empty_state\<lparr>report := Some []\<rparr>"

text \<open>
  The example of the specification: one company document of score 9, one financial document
  of score 5, empty revenue and industry datasets; an observer is present.
\<close>

definition example_state :: research_state where
  "example_state =
     empty_state\<lparr>company := Some ''Acme'', websocket_manager := Some delivering, job_id := Some ''job-1'',
       curated_company_data := Some (DictForm
         [(''docA'', \<lparr>url = None, title = Some ''A'', raw_content = None, content = Some ''about'',
                      overall_score = Number 9\<rparr>)]),
       curated_revenue_data := Some (DictForm []),
       curated_financial_data := Some (DictForm
         [(''docB'', \<lparr>url = None, title = Some ''B'', raw_content = None, content = Some ''funds'',
                      overall_score = Number 5\<rparr>)]),
       curated_industry_data := Some (DictForm [])\<rparr>"

text \<open>
  A schedule for its two tasks: both are admitted and prepared, the first backend call
  returns a text and the second raises.
\<close>

definition example_schedule :: "action list" where
  "example_schedule =
     [Acquire 0, Acquire (Suc 0), Prepare 0, Prepare (Suc 0),
      Reply 0 (Returns (Some ''Acme makes tools'')), Reply (Suc 0) Raises]"

text \<open>
  The same moves, both backend calls returning a text with whitespace around it.
\<close>

definition padded_schedule :: "action list" where
  "padded_schedule =
     [Acquire 0, Acquire (Suc 0), Prepare 0, Prepare (Suc 0),
      Reply 0 (Returns (Some '' Acme makes tools\<newline>'')), Reply (Suc 0) (Returns (Some ''Raised 5M ''))]"

text \<open>Three tasks, and a schedule that admits and prepares the first two.\<close>

definition three_tasks :: "task list" where
  "three_tasks =
     [\<lparr>category = ''company'', briefing_key = ''company_briefing'', data_field = ''company_data'',
       curated_data = example_docs\<rparr>,
      \<lparr>category = ''revenue'', briefing_key = ''revenue_briefing'', data_field = ''revenue_data'',
       curated_data = example_docs\<rparr>,
      \<lparr>category = ''financial'', briefing_key = ''financial_briefing'', data_field = ''financial_data'',
       curated_data = example_docs\<rparr>]"

definition two_admitted :: "action list" where
  "two_admitted = [Acquire 0, Acquire (Suc 0), Prepare 0, Prepare (Suc 0)]"

text \<open>The two tasks of the example state.\<close>

definition company_task :: task where
  "company_task = \<lparr>category = ''company'', briefing_key = ''company_briefing'', data_field = ''company_data'',
       curated_data = DictForm
         [(''docA'', \<lparr>url = None, title = Some ''A'', raw_content = None, content = Some ''about'',
                      overall_score = Number 9\<rparr>)]\<rparr>"

definition financial_task :: task where
  "financial_task = \<lparr>category = ''financial'', briefing_key = ''financial_briefing'', data_field = ''financial_data'',
       curated_data = DictForm
         [(''docB'', \<lparr>url = None, title = Some ''B'', raw_content = None, content = Some ''funds'',
                      overall_score = Number 5\<rparr>)]\<rparr>"

section \<open>The document selection\<close>

lemma collect_bound:
  "sum_list (map length acc) = tot \<Longrightarrow> tot < total_limit
     \<Longrightarrow> sum_list (map length (collect ds acc tot)) < total_limit"
proof (induction ds arbitrary: acc tot)
  case Nil
  then show ?case by simp
next
  case (Cons d ds)
  show ?case
  proof (cases "tot + length (doc_entry d) < total_limit")
    case True
    have "sum_list (map length (acc @ [doc_entry d])) = tot + length (doc_entry d)"
      using Cons.prems(1) by simp
    from Cons.IH[OF this True] show ?thesis using True by simp
  next
    case False
    then show ?thesis using Cons.prems by simp
  qed
qed

lemma collect_prefix:
  "sum_list (map length acc) = tot \<Longrightarrow>
   \<exists>n \<le> length ds. collect ds acc tot = acc @ map doc_entry (take n ds)
      \<and> (n < length ds \<longrightarrow> total_limit \<le> sum_list (map length (collect ds acc tot)) + length (doc_entry (ds ! n)))"
proof (induction ds arbitrary: acc tot)
  case Nil
  then show ?case by simp
next
  case (Cons d ds)
  show ?case
  proof (cases "tot + length (doc_entry d) < total_limit")
    case True
    from Cons.prems have "sum_list (map length (acc @ [doc_entry d])) = tot + length (doc_entry d)"
      by simp
    from Cons.IH[OF this] obtain n where n: "n \<le> length ds"
      "collect ds (acc @ [doc_entry d]) (tot + length (doc_entry d)) = (acc @ [doc_entry d]) @ map doc_entry (take n ds)"
      "n < length ds \<longrightarrow> total_limit \<le> sum_list (map length (collect ds (acc @ [doc_entry d]) (tot + length (doc_entry d)))) + length (doc_entry (ds ! n))"
      by blast
    show ?thesis
      apply (rule exI[of _ "Suc n"])
      using True n by simp
  next
    case False
    show ?thesis
      apply (rule exI[of _ 0])
      using False Cons.prems by simp
  qed
qed

lemma sort_keys_numeric:
  "\<forall>p \<in> set xs. overall_score (snd p) \<noteq> NotANumber
     \<Longrightarrow> sort_keys xs = Inr (map (\<lambda>p. numeric_score (snd p)) xs)"
  by (induction xs) (auto simp: numeric_score_def split: score_value.splits)

lemma sort_keys_raises:
  "\<exists>p \<in> set xs. overall_score (snd p) = NotANumber \<Longrightarrow> sort_keys xs = Inl ValueError"
proof (induction xs)
  case Nil
  then show ?case by simp
next
  case (Cons x xs)
  show ?case
  proof (cases "overall_score (snd x) = NotANumber")
    case True
    then show ?thesis by simp
  next
    case False
    with Cons.prems have "\<exists>p \<in> set xs. overall_score (snd p) = NotANumber" by auto
    from Cons.IH[OF this] show ?thesis
      by (simp split: score_value.splits)
  qed
qed

lemma insort_decorated:
  "\<forall>q \<in> set ys. fst q = f (snd q)
     \<Longrightarrow> insort_key (\<lambda>q. - fst q) (f x, x) ys = map (\<lambda>y. (f y, y)) (insort_key (\<lambda>y. - f y) x (map snd ys))"
proof (induction ys)
  case Nil
  show ?case by simp
next
  case (Cons y ys)
  have tail: "map (\<lambda>y. (f y, y)) (map snd ys) = ys"
    using Cons.prems by (simp add: map_idI prod_eq_iff)
  have head: "(f (snd y), snd y) = y"
    using Cons.prems by (simp add: prod_eq_iff)
  show ?case
    using Cons tail head by (simp del: map_map)
qed

lemma sort_decorated:
  "sort_key (\<lambda>q. - fst q) (map (\<lambda>y. (f y, y)) xs) = map (\<lambda>y. (f y, y)) (sort_key (\<lambda>y. - f y) xs)"
proof (induction xs)
  case Nil
  show ?case by simp
next
  case (Cons x xs)
  have "\<forall>q \<in> set (map (\<lambda>y. (f y, y)) (sort_key (\<lambda>y. - f y) xs)). fst q = f (snd q)"
    by simp
  from insort_decorated[OF this, of x] show ?case
    using Cons.IH by (simp add: o_def)
qed

lemma zip_decorate: "zip (map f xs) xs = map (\<lambda>y. (f y, y)) xs"
  by (induction xs) auto

lemma sorted_items_numeric:
  assumes "\<forall>p \<in> set (items docs). overall_score (snd p) \<noteq> NotANumber"
  shows "sorted_items docs = Inr (sort_key (\<lambda>p. - numeric_score (snd p)) (items docs))"
  using sort_keys_numeric[OF assms]
  by (simp add: sorted_items_def zip_decorate sort_decorated o_def)

lemma descending_sort_key:
  fixes f :: "'a \<Rightarrow> rat"
  shows "sorted_wrt (\<lambda>a b. f a \<ge> f b) (sort_key (\<lambda>y. - f y) xs)"
proof -
  have "sorted (map (\<lambda>y. - f y) (sort_key (\<lambda>y. - f y) xs))"
    by (rule sorted_sort_key)
  then show ?thesis
    by (simp add: sorted_wrt_map)
qed

lemma doc_content_length: "length (doc_content d) \<le> 12023"
  by (auto simp: doc_content_def max_doc_length_def Let_def split: option.splits)

lemma doc_entry_length:
  "length (doc_entry d) = 18 + length (case title d of Some t \<Rightarrow> t | None \<Rightarrow> []) + length (doc_content d)"
  by (simp add: doc_entry_def)

lemma sum_take_le: "sum_list (map length (take j xs)) \<le> sum_list (map length (xs :: string list))"
proof -
  have "sum_list (map length xs) = sum_list (map length (take j xs)) + sum_list (map length (drop j xs))"
    by (metis append_take_drop_id map_append sum_list_append)
  then show ?thesis by simp
qed

lemma sum_take_Suc:
  "k < length xs \<Longrightarrow> sum_list (map length (take k xs)) + length (xs ! k) = sum_list (map length (take (Suc k) (xs :: string list)))"
  by (simp add: take_Suc_conv_app_nth)

text \<open>
  Claim C1. For a dataset in either form, whenever the selection returns its blocks, their
  total length is below 140000; each block was appended while the running total plus its
  length was below 140000; and the blocks are the blocks of a leading part of the sorted
  documents, the first document left out being one whose block would have reached the
  limit, with every document after it left out as well.
\<close>

theorem doc_texts_within_limit:
  assumes "doc_texts docs = Inr blocks"
  shows "sum_list (map length blocks) < 140000
       \<and> (\<forall>k < length blocks. sum_list (map length (take k blocks)) + length (blocks ! k) < 140000)
       \<and> (\<exists>its. sorted_items docs = Inr its
             \<and> blocks = map (\<lambda>p. doc_entry (snd p)) (take (length blocks) its)
             \<and> (length blocks < length its \<longrightarrow>
                  140000 \<le> sum_list (map length blocks) + length (doc_entry (snd (its ! length blocks)))))"
proof -
  from assms obtain its where its: "sorted_items docs = Inr its"
    and blocks: "blocks = collect (map snd its) [] 0"
    by (auto simp: doc_texts_def split: sum.splits)
  have total: "sum_list (map length blocks) < 140000"
    using collect_bound[of "[]" 0 "map snd its"] blocks by (simp add: total_limit_def)
  have steps: "\<forall>k < length blocks. sum_list (map length (take k blocks)) + length (blocks ! k) < 140000"
  proof (intro allI impI)
    fix k assume "k < length blocks"
    then have "sum_list (map length (take k blocks)) + length (blocks ! k)
                 = sum_list (map length (take (Suc k) blocks))"
      by (rule sum_take_Suc)
    also have "\<dots> \<le> sum_list (map length blocks)" by (rule sum_take_le)
    finally show "sum_list (map length (take k blocks)) + length (blocks ! k) < 140000"
      using total by simp
  qed
  from collect_prefix[of "[]" 0 "map snd its"] obtain n where n: "n \<le> length its"
    and pre: "collect (map snd its) [] 0 = map doc_entry (take n (map snd its))"
    and stop: "n < length its \<longrightarrow>
       total_limit \<le> sum_list (map length (collect (map snd its) [] 0)) + length (doc_entry (map snd its ! n))"
    by auto
  have len: "length blocks = n" using n pre blocks by simp
  have shape: "blocks = map (\<lambda>p. doc_entry (snd p)) (take (length blocks) its)"
    using pre blocks len by (simp add: take_map o_def)
  have dropped: "length blocks < length its \<longrightarrow>
      140000 \<le> sum_list (map length blocks) + length (doc_entry (snd (its ! length blocks)))"
    using stop blocks len by (simp add: total_limit_def)
  show ?thesis using its total steps shape dropped by blast
qed

lemma example_sorted:
  "sorted_items example_docs = Inr
     [(''u2'', \<lparr>url = None, title = Some ''B'', raw_content = Some ''top'', content = None, overall_score = Number 9\<rparr>),
      (''u1'', \<lparr>url = None, title = Some ''A'', raw_content = None, content = Some ''low'', overall_score = Number (1/2)\<rparr>),
      (''u4'', \<lparr>url = None, title = Some ''D'', raw_content = None, content = None, overall_score = Number (1/2)\<rparr>),
      (''u3'', \<lparr>url = None, title = None, raw_content = Some '''', content = Some ''mid'', overall_score = Absent\<rparr>)]"
  by (simp add: example_docs_def sorted_items_def items_def)

lemma example_doc_texts:
  "doc_texts example_docs = Inr
     [''Title: B\<newline>\<newline>Content: top'', ''Title: A\<newline>\<newline>Content: low'',
      ''Title: D\<newline>\<newline>Content: '', ''Title: \<newline>\<newline>Content: mid'']"
  by (simp add: example_sorted doc_texts_def doc_entry_def doc_content_def max_doc_length_def total_limit_def)

text \<open>The selection on four short documents: all four blocks, far below the limit.\<close>

theorem doc_texts_within_limit_witness:
  "doc_texts example_docs = Inr
     [''Title: B\<newline>\<newline>Content: top'', ''Title: A\<newline>\<newline>Content: low'',
      ''Title: D\<newline>\<newline>Content: '', ''Title: \<newline>\<newline>Content: mid'']
   \<and> sum_list (map length
     [''Title: B\<newline>\<newline>Content: top'', ''Title: A\<newline>\<newline>Content: low'',
      ''Title: D\<newline>\<newline>Content: '', ''Title: \<newline>\<newline>Content: mid'']) < (140000 :: nat)"
  using doc_texts_within_limit[OF example_doc_texts] example_doc_texts by blast

text \<open>
  Claim C4, as the code has it. When every score is absent or a number, the documents are
  ordered by descending score before the blocks are built and collected; the sorted list is
  a permutation that keeps documents of equal score in their original order; an absent score
  counts as 0. (A score that \<open>float\<close> rejects is not replaced by 0: see the counterexample.)
\<close>

theorem sorted_items_descending_stable:
  assumes "\<forall>p \<in> set (items docs). overall_score (snd p) \<noteq> NotANumber"
  shows "\<exists>its. sorted_items docs = Inr its
           \<and> sorted_wrt (\<lambda>a b. numeric_score (snd a) \<ge> numeric_score (snd b)) its
           \<and> mset its = mset (items docs)
           \<and> (\<forall>k. filter (\<lambda>p. numeric_score (snd p) = k) its
                   = filter (\<lambda>p. numeric_score (snd p) = k) (items docs))
           \<and> (\<forall>p \<in> set its. overall_score (snd p) = Absent \<longrightarrow> numeric_score (snd p) = 0)
           \<and> doc_texts docs = Inr (collect (map snd its) [] 0)"
proof -
  let ?key = "\<lambda>p :: string \<times> document. numeric_score (snd p)"
  let ?its = "sort_key (\<lambda>p. - ?key p) (items docs)"
  have its: "sorted_items docs = Inr ?its"
    by (rule sorted_items_numeric[OF assms])
  have desc: "sorted_wrt (\<lambda>a b. ?key a \<ge> ?key b) ?its"
    by (rule descending_sort_key)
  have perm: "mset ?its = mset (items docs)"
    by simp
  have stable: "\<forall>k. filter (\<lambda>p. ?key p = k) ?its = filter (\<lambda>p. ?key p = k) (items docs)"
  proof
    fix k
    have "filter (\<lambda>p. - ?key p = - k) ?its = filter (\<lambda>p. - ?key p = - k) (items docs)"
      by (rule sort_key_stable)
    then show "filter (\<lambda>p. ?key p = k) ?its = filter (\<lambda>p. ?key p = k) (items docs)"
      by simp
  qed
  have zero: "\<forall>p \<in> set ?its. overall_score (snd p) = Absent \<longrightarrow> ?key p = 0"
    by (simp add: numeric_score_def)
  have texts: "doc_texts docs = Inr (collect (map snd ?its) [] 0)"
    using its by (simp add: doc_texts_def)
  show ?thesis using its desc perm stable zero texts by blast
qed

theorem sorted_items_descending_stable_witness:
  "list_all (\<lambda>p. overall_score (snd p) \<noteq> NotANumber) (items example_docs)
   \<and> (\<exists>its. sorted_items example_docs = Inr its
          \<and> map fst its = [''u2'', ''u1'', ''u4'', ''u3'']
          \<and> sorted_wrt (\<lambda>a b. numeric_score (snd a) \<ge> numeric_score (snd b)) its)"
proof -
  have numeric: "\<forall>p \<in> set (items example_docs). overall_score (snd p) \<noteq> NotANumber"
    by (simp add: example_docs_def items_def)
  from sorted_items_descending_stable[OF numeric] obtain its
    where its: "sorted_items example_docs = Inr its"
      and desc: "sorted_wrt (\<lambda>a b. numeric_score (snd a) \<ge> numeric_score (snd b)) its"
    by blast
  from its have order: "map fst its = [''u2'', ''u1'', ''u4'', ''u3'']"
    by (auto simp: example_sorted)
  have "\<exists>its. sorted_items example_docs = Inr its
          \<and> map fst its = [''u2'', ''u1'', ''u4'', ''u3'']
          \<and> sorted_wrt (\<lambda>a b. numeric_score (snd a) \<ge> numeric_score (snd b)) its"
    by (rule exI[of _ its]) (simp add: its order desc)
  with numeric show ?thesis by (simp add: list_all_iff)
qed

text \<open>
  A list of two documents, the second with a score text that is not a number: the sort
  raises \<open>ValueError\<close> and there are no blocks, where the claim has score 0 and no error.
\<close>

theorem sorted_items_unparseable_counterexample:
  "sorted_items unscored_docs = Inl ValueError \<and> doc_texts unscored_docs = Inl ValueError"
  by (simp add: unscored_docs_def doc_texts_def sorted_items_def items_def)

lemma sort_key_hd_max:
  fixes f :: "'a \<Rightarrow> rat"
  assumes "xs \<noteq> []"
  shows "\<exists>top rest. sort_key (\<lambda>y. - f y) xs = top # rest \<and> (\<forall>x \<in> set xs. f x \<le> f top)"
proof -
  let ?s = "sort_key (\<lambda>y. - f y) xs"
  have "?s \<noteq> []" using assms by (metis length_sort list.size(3) length_0_conv)
  then obtain top rest where s: "?s = top # rest" by (cases ?s) auto
  have "sorted_wrt (\<lambda>a b. f a \<ge> f b) ?s" by (rule descending_sort_key)
  with s have "\<forall>x \<in> set rest. f x \<le> f top" by simp
  moreover have "set xs = set ?s" by simp
  ultimately have "\<forall>x \<in> set xs. f x \<le> f top" using s by auto
  with s show ?thesis by blast
qed

lemma items_nonempty: "nonempty_docs docs \<Longrightarrow> items docs \<noteq> []"
  by (cases docs) (auto simp: nonempty_docs_def items_def enumerate_eq_zip)

lemma doc_content_cut:
  "doc_content doc =
     (if 12000 < length (original_content doc)
      then take 12000 (original_content doc) @ ''... [content truncated]''
      else original_content doc)"
  by (simp add: doc_content_def original_content_def max_doc_length_def Let_def)

text \<open>
  Claim C5, as the code has it. For a non-empty dataset whose scores are absent or numbers,
  the first sorted document has the highest score and is the first document of that score
  in the original order; its block is its title and its content, the content cut to its
  first 12000 characters with the marker appended when it is longer (at most 12023
  characters) before the limit is tested; and when its title has at most 127958 characters
  its block is the first block of the output, however long its original content is. (With
  a longer title the block can reach the limit: see the counterexample.)
\<close>

theorem top_document_kept:
  assumes "nonempty_docs docs"
    and "\<forall>p \<in> set (items docs). overall_score (snd p) \<noteq> NotANumber"
  shows "\<exists>top rest. sorted_items docs = Inr (top # rest)
           \<and> top \<in> set (items docs)
           \<and> (\<forall>p \<in> set (items docs). numeric_score (snd p) \<le> numeric_score (snd top))
           \<and> (\<exists>others. filter (\<lambda>p. numeric_score (snd p) = numeric_score (snd top)) (items docs)
                          = top # others)
           \<and> doc_entry (snd top)
               = ''Title: '' @ (case title (snd top) of Some t \<Rightarrow> t | None \<Rightarrow> []) @ ''\<newline>\<newline>Content: ''
                   @ (if 12000 < length (original_content (snd top))
                      then take 12000 (original_content (snd top)) @ ''... [content truncated]''
                      else original_content (snd top))
           \<and> length (doc_content (snd top)) \<le> 12023
           \<and> (length (case title (snd top) of Some t \<Rightarrow> t | None \<Rightarrow> []) \<le> 127958 \<longrightarrow>
                (\<exists>more. doc_texts docs = Inr (doc_entry (snd top) # more)))"
proof -
  let ?key = "\<lambda>p :: string \<times> document. numeric_score (snd p)"
  from sort_key_hd_max[OF items_nonempty[OF assms(1)], of ?key] obtain top rest
    where s: "sort_key (\<lambda>p. - ?key p) (items docs) = top # rest"
      and mx: "\<forall>p \<in> set (items docs). ?key p \<le> ?key top"
    by blast
  have its: "sorted_items docs = Inr (top # rest)"
    using sorted_items_numeric[OF assms(2)] s by simp
  have mem: "top \<in> set (items docs)"
  proof -
    have "top \<in> set (sort_key (\<lambda>p. - ?key p) (items docs))" using s by simp
    then show ?thesis by simp
  qed
  have first: "\<exists>others. filter (\<lambda>p. ?key p = ?key top) (items docs) = top # others"
  proof -
    have "filter (\<lambda>p. - ?key p = - ?key top) (sort_key (\<lambda>p. - ?key p) (items docs))
            = filter (\<lambda>p. - ?key p = - ?key top) (items docs)"
      by (rule sort_key_stable)
    then have "filter (\<lambda>p. ?key p = ?key top) (items docs)
                 = top # filter (\<lambda>p. ?key p = ?key top) rest"
      using s by simp
    then show ?thesis by blast
  qed
  have block: "doc_entry (snd top)
               = ''Title: '' @ (case title (snd top) of Some t \<Rightarrow> t | None \<Rightarrow> []) @ ''\<newline>\<newline>Content: ''
                   @ (if 12000 < length (original_content (snd top))
                      then take 12000 (original_content (snd top)) @ ''... [content truncated]''
                      else original_content (snd top))"
    by (simp only: doc_entry_def doc_content_cut)
  have kept: "\<exists>more. doc_texts docs = Inr (doc_entry (snd top) # more)"
    if short: "length (case title (snd top) of Some t \<Rightarrow> t | None \<Rightarrow> []) \<le> 127958"
  proof -
    have "length (doc_entry (snd top)) < total_limit"
      using short doc_content_length[of "snd top"]
      by (simp add: doc_entry_length total_limit_def)
    moreover obtain n where "collect (map snd rest) [doc_entry (snd top)] (length (doc_entry (snd top)))
         = [doc_entry (snd top)] @ map doc_entry (take n (map snd rest))"
      using collect_prefix[of "[doc_entry (snd top)]" "length (doc_entry (snd top))" "map snd rest"]
      by auto
    ultimately show ?thesis using its by (simp add: doc_texts_def)
  qed
  from kept have kept': "length (case title (snd top) of Some t \<Rightarrow> t | None \<Rightarrow> []) \<le> 127958 \<longrightarrow>
                (\<exists>more. doc_texts docs = Inr (doc_entry (snd top) # more))"
    by blast
  note facts = its mem mx first block doc_content_length[of "snd top"] kept'
  show ?thesis
    by (rule exI[of _ top], rule exI[of _ rest]) (intro conjI facts)
qed

lemma long_content_sorted:
  "sorted_items long_content_docs = Inr
     [(''u2'', \<lparr>url = None, title = Some ''L'', raw_content = Some (replicate 150000 CHR ''x''),
                 content = Some ''summary'', overall_score = Number 9\<rparr>),
      (''u3'', \<lparr>url = None, title = Some ''T'', raw_content = None, content = Some ''tie'',
                 overall_score = Number 9\<rparr>),
      (''u1'', \<lparr>url = None, title = Some ''S'', raw_content = None, content = Some ''short'',
                 overall_score = Number 1\<rparr>)]"
  by (simp add: long_content_docs_def sorted_items_def items_def)

text \<open>
  The document of score 9 that comes first in the original order has 150000 characters of
  content: its block is first in the output, with the first 12000 characters and the marker.
\<close>

theorem top_document_kept_witness:
  "nonempty_docs long_content_docs
   \<and> list_all (\<lambda>p. overall_score (snd p) \<noteq> NotANumber) (items long_content_docs)
   \<and> (\<exists>more. doc_texts long_content_docs
         = Inr ((''Title: L\<newline>\<newline>Content: '' @ replicate 12000 CHR ''x'' @ ''... [content truncated]'') # more))"
proof -
  have nonempty: "nonempty_docs long_content_docs"
    by (simp add: long_content_docs_def nonempty_docs_def)
  have numeric: "\<forall>p \<in> set (items long_content_docs). overall_score (snd p) \<noteq> NotANumber"
    by (simp add: long_content_docs_def items_def)
  from top_document_kept[OF nonempty numeric] obtain top rest
    where its: "sorted_items long_content_docs = Inr (top # rest)"
      and block: "doc_entry (snd top)
               = ''Title: '' @ (case title (snd top) of Some t \<Rightarrow> t | None \<Rightarrow> []) @ ''\<newline>\<newline>Content: ''
                   @ (if 12000 < length (original_content (snd top))
                      then take 12000 (original_content (snd top)) @ ''... [content truncated]''
                      else original_content (snd top))"
      and kept: "length (case title (snd top) of Some t \<Rightarrow> t | None \<Rightarrow> []) \<le> 127958 \<longrightarrow>
                   (\<exists>more. doc_texts long_content_docs = Inr (doc_entry (snd top) # more))"
    by blast
  from its have top: "top = (''u2'', \<lparr>url = None, title = Some ''L'',
                                      raw_content = Some (replicate 150000 CHR ''x''),
                                      content = Some ''summary'', overall_score = Number 9\<rparr>)"
    by (simp add: long_content_sorted)
  have oc: "original_content (snd top) = replicate 150000 CHR ''x''"
    by (simp add: top original_content_def)
  have "doc_entry (snd top) = ''Title: L\<newline>\<newline>Content: '' @ replicate 12000 CHR ''x'' @ ''... [content truncated]''"
    unfolding block oc by (simp add: top)
  moreover have "length (case title (snd top) of Some t \<Rightarrow> t | None \<Rightarrow> []) \<le> 127958"
    by (simp add: top)
  ultimately have "\<exists>more. doc_texts long_content_docs
         = Inr ((''Title: L\<newline>\<newline>Content: '' @ replicate 12000 CHR ''x'' @ ''... [content truncated]'') # more)"
    using kept by simp
  with nonempty numeric show ?thesis by (simp add: list_all_iff)
qed

text \<open>
  One document whose title has 140000 characters: its block alone reaches the limit, so the
  loop breaks at once and the only, top-scored document is not in the output.
\<close>

theorem top_document_dropped_counterexample:
  "nonempty_docs long_title_docs \<and> doc_texts long_title_docs = Inr []"
  by (simp add: long_title_docs_def nonempty_docs_def doc_texts_def sorted_items_def items_def
        doc_entry_def total_limit_def)

section \<open>The briefing generator\<close>

lemma doc_texts_numeric:
  assumes "\<forall>p \<in> set (items docs). overall_score (snd p) \<noteq> NotANumber"
  shows "\<exists>blocks. doc_texts docs = Inr blocks"
  using sorted_items_numeric[OF assms] by (simp add: doc_texts_def)

lemma send_status_update_statuses:
  "fst (send_status_update m j st msg res) = Inr () \<Longrightarrow>
     map ev_status (snd (send_status_update m j st msg res))
       = (if m \<noteq> None \<and> (case j of Some i \<Rightarrow> i \<noteq> [] | None \<Rightarrow> False) then [st] else [])"
  by (auto simp: send_status_update_def split: option.splits if_splits)

lemma send_status_update_raises:
  "fst (send_status_update m j st msg res) = Inl e \<Longrightarrow>
     snd (send_status_update m j st msg res) = [] \<and> e = SendError
       \<and> m \<noteq> None \<and> (case j of Some i \<Rightarrow> i \<noteq> [] | None \<Rightarrow> False)"
  by (auto simp: send_status_update_def split: option.splits if_splits)

lemma briefing_start_statuses:
  "fst (briefing_start ctx cat docs) = Inr () \<Longrightarrow>
     map ev_status (snd (briefing_start ctx cat docs)) = (if observed ctx then [''briefing_start''] else [])"
  unfolding briefing_start_def observed_def by (drule send_status_update_statuses) simp

lemma briefing_reply_failure:
  "\<not> (succeeds c \<and> fst (briefing_complete ctx cat) = Inr ()) \<Longrightarrow>
     fst (briefing_reply ctx cat c) = \<lparr>briefing_content = []\<rparr>
       \<and> map ev_status (snd (briefing_reply ctx cat c)) = []"
proof (cases "fst (briefing_complete ctx cat)")
  case (Inl e)
  from send_status_update_raises[of "ctx_websocket_manager ctx" "ctx_job_id ctx" "''briefing_complete''"
      "''Completed '' @ cat @ '' briefing''" "[(''step'', Text ''Briefing''), (''category'', Text cat)]" e] Inl
  have "snd (briefing_complete ctx cat) = []" by (simp add: briefing_complete_def)
  with Inl show ?thesis
    by (cases "briefing_complete ctx cat")
       (auto simp: briefing_reply_def response_content_def split: completion.splits option.splits sum.splits)
next
  case (Inr u)
  assume "\<not> (succeeds c \<and> fst (briefing_complete ctx cat) = Inr ())"
  with Inr have "\<not> succeeds c" by simp
  then show ?thesis
    by (auto simp: briefing_reply_def response_content_def succeeds_def split: completion.splits option.splits)
qed

lemma briefing_reply_success:
  assumes "succeeds c" and "fst (briefing_complete ctx cat) = Inr ()"
  shows "\<exists>t. c = Returns (Some t) \<and> strip t \<noteq> []
        \<and> fst (briefing_reply ctx cat c) = \<lparr>briefing_content = strip t\<rparr>
        \<and> map ev_status (snd (briefing_reply ctx cat c))
            = (if observed ctx then [''briefing_complete''] else [])"
proof -
  from assms(1) obtain t where t: "c = Returns (Some t)" "strip t \<noteq> []"
    by (auto simp: succeeds_def split: completion.splits option.splits)
  have st: "map ev_status (snd (briefing_complete ctx cat))
              = (if observed ctx then [''briefing_complete''] else [])"
    using assms(2) unfolding briefing_complete_def observed_def
    by (drule_tac send_status_update_statuses) simp
  from t assms(2) st show ?thesis
    by (cases "briefing_complete ctx cat") (auto simp: briefing_reply_def response_content_def)
qed

text \<open>
  Claim C3, as the code has it. Whenever delivering the start event does not raise and the
  document selection completes (every score is absent or a number), the generator returns
  a briefing and raises nothing, whatever the backend call does; the text is the trimmed
  reply when the call returned a text that is not blank and delivering the completion event
  did not raise, and is empty otherwise; with an observer in the context the events
  delivered are \<open>briefing_start\<close> and then \<open>briefing_complete\<close> in the first case and
  \<open>briefing_start\<close> alone in the second; without one nothing is sent.
\<close>

theorem generate_category_briefing_outcomes:
  assumes "\<forall>p \<in> set (items docs). overall_score (snd p) \<noteq> NotANumber"
    and "fst (briefing_start ctx cat docs) = Inr ()"
  shows "(\<exists>b. fst (generate_category_briefing docs cat ctx c) = Inr b
            \<and> (briefing_content b \<noteq> [] \<longleftrightarrow> succeeds c \<and> fst (briefing_complete ctx cat) = Inr ())
            \<and> briefing_content b
                = (if fst (briefing_complete ctx cat) = Inr ()
                   then (case c of Returns (Some t) \<Rightarrow> strip t | _ \<Rightarrow> [])
                   else []))
       \<and> map ev_status (snd (generate_category_briefing docs cat ctx c))
            = (if observed ctx
               then (if succeeds c \<and> fst (briefing_complete ctx cat) = Inr ()
                     then [''briefing_start'', ''briefing_complete''] else [''briefing_start''])
               else [])"
proof -
  from doc_texts_numeric[OF assms(1)] obtain blocks where blocks: "doc_texts docs = Inr blocks" ..
  obtain evs where start: "briefing_start ctx cat docs = (Inr (), evs)"
    using assms(2) by (cases "briefing_start ctx cat docs") auto
  from briefing_start_statuses[OF assms(2)] start
  have evs: "map ev_status evs = (if observed ctx then [''briefing_start''] else [])" by simp
  have gen: "generate_category_briefing docs cat ctx c
               = (Inr (fst (briefing_reply ctx cat c)), evs @ snd (briefing_reply ctx cat c))"
    by (simp add: generate_category_briefing_def start blocks)
  show ?thesis
  proof (cases "succeeds c \<and> fst (briefing_complete ctx cat) = Inr ()")
    case True
    from briefing_reply_success[of c ctx cat] True obtain t
      where "c = Returns (Some t)" "strip t \<noteq> []"
        "fst (briefing_reply ctx cat c) = \<lparr>briefing_content = strip t\<rparr>"
        "map ev_status (snd (briefing_reply ctx cat c))
            = (if observed ctx then [''briefing_complete''] else [])"
      by blast
    with True gen evs show ?thesis by simp
  next
    case False
    have empty: "(if fst (briefing_complete ctx cat) = Inr ()
                   then (case c of Returns (Some t) \<Rightarrow> strip t | _ \<Rightarrow> [])
                   else []) = []"
      using False by (auto simp: succeeds_def split: completion.splits option.splits)
    from briefing_reply_failure[OF False] gen evs False empty show ?thesis by auto
  qed
qed

lemma strip_example: "strip ''  Acme makes tools\<newline>'' = ''Acme makes tools''"
  by (simp add: strip_def isspace_def)

lemma observed_start:
  "briefing_start observed_context cat docs
     = (Inr (), [\<lparr>ev_job_id = ''job-1'', ev_status = ''briefing_start'',
                   ev_message = ''Generating '' @ cat @ '' briefing'',
                   ev_result = [(''step'', Text ''Briefing''), (''category'', Text cat),
                                (''total_docs'', Count (len_docs docs))]\<rparr>])"
  by (simp add: briefing_start_def send_status_update_def observed_context_def delivering_def)

lemma observed_complete:
  "briefing_complete observed_context cat
     = (Inr (), [\<lparr>ev_job_id = ''job-1'', ev_status = ''briefing_complete'',
                   ev_message = ''Completed '' @ cat @ '' briefing'',
                   ev_result = [(''step'', Text ''Briefing''), (''category'', Text cat)]\<rparr>])"
  by (simp add: briefing_complete_def send_status_update_def observed_context_def delivering_def)

text \<open>
  The four example documents and an observer that delivers, the backend returning a text
  with blanks around it: the trimmed text, and the two events.
\<close>

theorem generate_category_briefing_outcomes_witness:
  "list_all (\<lambda>p. overall_score (snd p) \<noteq> NotANumber) (items example_docs)
   \<and> fst (briefing_start observed_context ''company'' example_docs) = Inr ()
   \<and> fst (generate_category_briefing example_docs ''company'' observed_context
            (Returns (Some ''  Acme makes tools\<newline>''))) = Inr \<lparr>briefing_content = ''Acme makes tools''\<rparr>
   \<and> map ev_status (snd (generate_category_briefing example_docs ''company'' observed_context
            (Returns (Some ''  Acme makes tools\<newline>'')))) = [''briefing_start'', ''briefing_complete'']"
proof -
  have numeric: "\<forall>p \<in> set (items example_docs). overall_score (snd p) \<noteq> NotANumber"
    by (simp add: example_docs_def items_def)
  have start: "fst (briefing_start observed_context ''company'' example_docs) = Inr ()"
    by (simp add: observed_start)
  have ok: "succeeds (Returns (Some ''  Acme makes tools\<newline>''))"
    by (simp add: succeeds_def strip_example)
  have delivered: "fst (briefing_complete observed_context ''company'') = Inr ()"
    by (simp add: observed_complete)
  have obs: "observed observed_context"
    by (simp add: observed_def observed_context_def)
  from generate_category_briefing_outcomes[OF numeric start, of "Returns (Some ''  Acme makes tools\<newline>'')"]
  show ?thesis using numeric start ok delivered obs by (auto simp: list_all_iff strip_example)
qed

text \<open>
  Two inputs the claim covers. A document with a score text that is not a number: the
  call raises \<open>ValueError\<close> to its caller. A context without an observer and a backend that
  answers: the call succeeds and sends no event, where the claim has two.
\<close>

theorem generate_category_briefing_counterexample:
  "fst (generate_category_briefing unscored_docs ''company'' observed_context
          (Returns (Some ''Acme makes tools''))) = Inl ValueError
   \<and> generate_category_briefing example_docs ''company'' unobserved_context
          (Returns (Some ''Acme makes tools'')) = (Inr \<lparr>briefing_content = ''Acme makes tools''\<rparr>, [])"
proof -
  have bad: "doc_texts unscored_docs = Inl ValueError"
    by (simp add: unscored_docs_def doc_texts_def sorted_items_def items_def)
  have s: "strip ''Acme makes tools'' = ''Acme makes tools''"
    by (simp add: strip_def isspace_def)
  show ?thesis
    by (simp add: generate_category_briefing_def bad example_doc_texts briefing_reply_def
        response_content_def s briefing_start_def briefing_complete_def send_status_update_def
        unobserved_context_def observed_context_def delivering_def)
qed

section \<open>The semaphore of \<open>create_briefings\<close>\<close>

lemma count_update:
  "i < length ps \<Longrightarrow>
     length (filter P (ps[i := q])) + (if P (ps ! i) then 1 else 0)
       = length (filter P ps) + (if P q then 1 else 0)"
proof (induction ps arbitrary: i)
  case Nil
  then show ?case by simp
next
  case (Cons p ps)
  show ?case
  proof (cases i)
    case 0
    then show ?thesis by simp
  next
    case (Suc j)
    with Cons.prems have "j < length ps" by simp
    from Cons.IH[OF this] Suc show ?thesis by simp
  qed
qed

lemma step_slots_ok:
  assumes "slots_ok tasks g" and "step tasks ctx a g = Some g'"
  shows "slots_ok tasks g'"
proof (cases a)
  case (Acquire i)
  with assms(2) have i: "i < length (g_phases g)" "g_phases g ! i = Waiting" "0 < g_semaphore g"
    and g': "g' = g\<lparr>g_semaphore := g_semaphore g - 1, g_phases := (g_phases g)[i := Admitted]\<rparr>"
    by (auto simp: step_def split: if_splits)
  from count_update[OF i(1), of "\<lambda>p. p = Admitted \<or> p = Calling" Admitted] i(2)
  have "holding g' = holding g + 1" by (simp add: holding_def g')
  with assms(1) i(3) show ?thesis by (simp add: slots_ok_def g')
next
  case (Prepare i)
  with assms(2) have i: "i < length (g_phases g)" "g_phases g ! i = Admitted"
    by (auto simp: step_def split: if_splits)
  from Prepare assms(2)
  have g': "(\<exists>e. g_phases g' = (g_phases g)[i := Failed e] \<and> g_semaphore g' = g_semaphore g + 1)
          \<or> (g_phases g' = (g_phases g)[i := Calling] \<and> g_semaphore g' = g_semaphore g)"
    by (auto simp: step_def split: if_splits sum.splits prod.splits)
  then show ?thesis
  proof
    assume "\<exists>e. g_phases g' = (g_phases g)[i := Failed e] \<and> g_semaphore g' = g_semaphore g + 1"
    then obtain e where p: "g_phases g' = (g_phases g)[i := Failed e]"
      "g_semaphore g' = g_semaphore g + 1" by blast
    from count_update[OF i(1), of "\<lambda>p. p = Admitted \<or> p = Calling" "Failed e"] i(2)
    have "holding g' + 1 = holding g" by (simp add: holding_def p)
    with assms(1) show ?thesis by (simp add: slots_ok_def p)
  next
    assume p: "g_phases g' = (g_phases g)[i := Calling] \<and> g_semaphore g' = g_semaphore g"
    from count_update[OF i(1), of "\<lambda>p. p = Admitted \<or> p = Calling" Calling] i(2)
    have "holding g' = holding g" by (simp add: holding_def p)
    with assms(1) show ?thesis by (simp add: slots_ok_def p)
  qed
next
  case (Reply i c)
  with assms(2) have i: "i < length (g_phases g)" "g_phases g ! i = Calling"
    and g': "g_phases g' = (g_phases g)[i := Finished]" "g_semaphore g' = g_semaphore g + 1"
    by (auto simp: step_def Let_def split: if_splits)
  from count_update[OF i(1), of "\<lambda>p. p = Admitted \<or> p = Calling" Finished] i(2)
  have "holding g' + 1 = holding g" by (simp add: holding_def g')
  with assms(1) show ?thesis by (simp add: slots_ok_def g')
qed

lemma run_schedule_slots_ok:
  "slots_ok tasks g \<Longrightarrow> run_schedule tasks ctx sched g = Some g' \<Longrightarrow> slots_ok tasks g'"
proof (induction sched arbitrary: g)
  case Nil
  then show ?case by simp
next
  case (Cons a sched)
  from Cons.prems(2) obtain g1 where g1: "step tasks ctx a g = Some g1"
    and rest: "run_schedule tasks ctx sched g1 = Some g'"
    by (auto split: option.splits)
  from step_slots_ok[OF Cons.prems(1) g1] have "slots_ok tasks g1" .
  from Cons.IH[OF this rest] show ?case .
qed

lemma start_gather_slots_ok: "slots_ok tasks (start_gather tasks s evs)"
  by (simp add: slots_ok_def start_gather_def holding_def)

lemma count_mono: "(\<And>p. P p \<Longrightarrow> Q p) \<Longrightarrow> length (filter P ps) \<le> length (filter Q ps)"
  by (induction ps) (auto simp: le_SucI)

lemma in_flight_le_holding: "in_flight g \<le> holding g"
  unfolding in_flight_def holding_def by (rule count_mono) simp

lemma reply_releases:
  assumes "step tasks ctx (Reply i c) g = Some g'"
  shows "i < length (g_phases g) \<and> g_phases g ! i = Calling
       \<and> g_phases g' = (g_phases g)[i := Finished]
       \<and> g_semaphore g' = g_semaphore g + 1
       \<and> holding g' + 1 = holding g"
proof -
  from assms have i: "i < length (g_phases g)" "g_phases g ! i = Calling"
    and g': "g_phases g' = (g_phases g)[i := Finished]" "g_semaphore g' = g_semaphore g + 1"
    by (auto simp: step_def Let_def split: if_splits)
  from count_update[OF i(1), of "\<lambda>p. p = Admitted \<or> p = Calling" Finished] i(2)
  have "holding g' + 1 = holding g" by (simp add: holding_def g')
  with i g' show ?thesis by simp
qed

text \<open>
  Claim C2. In every state that a schedule of the tasks' moves reaches from the start of
  \<open>gather\<close>, for any number of tasks: the tasks that hold a slot, and so the backend calls
  outstanding, are at most 2, and together with the semaphore's counter they are exactly 2;
  when 2 tasks hold a slot no task can pass \<open>async with\<close>; and the end of a running task
  frees a slot, after which any waiting task can pass.
\<close>

theorem at_most_two_in_flight:
  assumes "run_schedule tasks ctx sched (start_gather tasks s evs) = Some g"
  shows "in_flight g \<le> holding g \<and> holding g \<le> 2 \<and> holding g + g_semaphore g = 2
       \<and> (holding g = 2 \<longrightarrow> (\<forall>i. step tasks ctx (Acquire i) g = None))
       \<and> (\<forall>i c g'. step tasks ctx (Reply i c) g = Some g' \<longrightarrow>
             holding g' + 1 = holding g
           \<and> (\<forall>j. j < length tasks \<and> g_phases g ! j = Waiting \<longrightarrow>
                 (\<exists>g''. step tasks ctx (Acquire j) g' = Some g'')))"
proof -
  from run_schedule_slots_ok[OF start_gather_slots_ok assms]
  have ok: "length (g_phases g) = length tasks" "holding g + g_semaphore g = 2"
    by (simp_all add: slots_ok_def)
  have full: "holding g = 2 \<longrightarrow> (\<forall>i. step tasks ctx (Acquire i) g = None)"
    using ok(2) by (simp add: step_def)
  have release: "holding g' + 1 = holding g
           \<and> (\<forall>j. j < length tasks \<and> g_phases g ! j = Waiting \<longrightarrow>
                 (\<exists>g''. step tasks ctx (Acquire j) g' = Some g''))"
    if st: "step tasks ctx (Reply i c) g = Some g'" for i c g'
  proof -
    from reply_releases[OF st] have r: "i < length (g_phases g)" "g_phases g ! i = Calling"
      "g_phases g' = (g_phases g)[i := Finished]" "g_semaphore g' = g_semaphore g + 1"
      "holding g' + 1 = holding g"
      by simp_all
    have "\<exists>g''. step tasks ctx (Acquire j) g' = Some g''"
      if j: "j < length tasks \<and> g_phases g ! j = Waiting" for j
    proof -
      from j r(2) have "j \<noteq> i" by auto
      with j r(3) ok(1) have "g_phases g' ! j = Waiting" "j < length (g_phases g')" by simp_all
      with j r(4) show ?thesis by (simp add: step_def)
    qed
    with r(5) show ?thesis by blast
  qed
  from in_flight_le_holding[of g] ok(2) full release show ?thesis by auto
qed

lemma two_admitted_run:
  "run_schedule three_tasks observed_context two_admitted (start_gather three_tasks empty_state [])
     = Some \<lparr>g_state = empty_state, g_briefings = [],
             g_sent = snd (briefing_start observed_context ''company'' example_docs)
                        @ snd (briefing_start observed_context ''revenue'' example_docs),
             g_semaphore = 0, g_phases = [Calling, Calling, Waiting]\<rparr>"
  by (simp add: two_admitted_def three_tasks_def start_gather_def step_def example_doc_texts observed_start)

text \<open>
  Three tasks, the first two admitted and calling the backend: 2 calls outstanding, the
  counter at 0, and the third task cannot pass.
\<close>

theorem at_most_two_in_flight_witness:
  "\<exists>g. run_schedule three_tasks observed_context two_admitted (start_gather three_tasks empty_state [])
          = Some g
      \<and> in_flight g = 2 \<and> g_semaphore g = 0
      \<and> step three_tasks observed_context (Acquire (Suc (Suc 0))) g = None"
proof -
  let ?g = "\<lparr>g_state = empty_state, g_briefings = [],
             g_sent = snd (briefing_start observed_context ''company'' example_docs)
                        @ snd (briefing_start observed_context ''revenue'' example_docs),
             g_semaphore = 0, g_phases = [Calling, Calling, Waiting]\<rparr>"
  have flight: "in_flight ?g = 2" by (simp add: in_flight_def)
  from at_most_two_in_flight[OF two_admitted_run] in_flight_le_holding[of ?g] flight
  have "holding ?g = 2" "g_semaphore ?g = 0" "step three_tasks observed_context (Acquire (Suc (Suc 0))) ?g = None"
    by auto
  with two_admitted_run flight show ?thesis by blast
qed

section \<open>Skipped categories in \<open>create_briefings\<close>\<close>

lemma get_curated_set_briefing: "get_curated (set_briefing k v s) key = get_curated s key"
  by (simp add: get_curated_def set_briefing_def)

lemma skipped_set_briefing: "skipped (set_briefing k v s) field = skipped s field"
  by (simp add: skipped_def get_curated_set_briefing)

lemma get_set_briefing_other: "k \<noteq> key \<Longrightarrow> get_briefing (set_briefing k v s) key = get_briefing s key"
  by (auto simp: get_briefing_def set_briefing_def)

lemma get_set_briefing_same:
  "(f, c, k) \<in> set categories \<Longrightarrow> get_briefing (set_briefing k v s) k = Some v"
  by (auto simp: categories_def get_briefing_def set_briefing_def)

lemma get_briefing_briefings_update: "get_briefing (s\<lparr>briefings := b\<rparr>) key = get_briefing s key"
  by (simp add: get_briefing_def)

lemma categories_functional:
  "(f, c, k) \<in> set categories \<Longrightarrow> (f', c', k') \<in> set categories \<Longrightarrow> c = c' \<or> k = k' \<Longrightarrow> f = f'"
  by (auto simp: categories_def)

lemma build_tasks_origin:
  "t \<in> set (fst (build_tasks ks s acc)) \<Longrightarrow>
     t \<in> set acc \<or> ((data_field t, category t, briefing_key t) \<in> set ks \<and> \<not> skipped s (data_field t))"
proof (induction ks s acc rule: build_tasks.induct)
  case (1 s briefing_tasks)
  then show ?case by simp
next
  case (2 field cat key rest s briefing_tasks)
  show ?case
  proof (cases "skipped s field")
    case True
    then have "build_tasks ((field, cat, key) # rest) s briefing_tasks
                 = build_tasks rest (set_briefing key [] s) briefing_tasks"
      by (auto simp: skipped_def split: option.splits)
    with 2 True show ?thesis
      by (auto simp: skipped_def skipped_set_briefing get_curated_set_briefing split: option.splits)
  next
    case False
    then obtain docs where docs: "get_curated s (''curated_'' @ field) = Some docs" "nonempty_docs docs"
      by (auto simp: skipped_def split: option.splits)
    with 2 False show ?thesis by auto
  qed
qed

lemma set_briefing_keeps_empty:
  "get_briefing s key = Some [] \<Longrightarrow> get_briefing (set_briefing k [] s) key = Some []"
proof (cases "k = key")
  case False
  assume "get_briefing s key = Some []"
  with False show ?thesis by (simp add: get_set_briefing_other)
next
  case True
  assume "get_briefing s key = Some []"
  with True show ?thesis
    by (simp add: get_briefing_def set_briefing_def split: if_splits)
qed

lemma build_tasks_keeps_empty:
  "get_briefing s key = Some [] \<Longrightarrow> get_briefing (snd (build_tasks ks s acc)) key = Some []"
proof (induction ks arbitrary: s acc)
  case Nil
  then show ?case by simp
next
  case (Cons entry rest)
  obtain f c k where entry: "entry = (f, c, k)" by (cases entry)
  show ?case
  proof (cases "skipped s f")
    case True
    then have unfold: "build_tasks (entry # rest) s acc = build_tasks rest (set_briefing k [] s) acc"
      by (auto simp: entry skipped_def split: option.splits)
    from set_briefing_keeps_empty[OF Cons.prems] have "get_briefing (set_briefing k [] s) key = Some []" .
    from Cons.IH[OF this] unfold show ?thesis by simp
  next
    case False
    then obtain docs where docs: "get_curated s (''curated_'' @ f) = Some docs" "nonempty_docs docs"
      by (auto simp: skipped_def split: option.splits)
    from Cons.IH[OF Cons.prems] docs entry show ?thesis by simp
  qed
qed

lemma build_tasks_sets_empty:
  "(field, cat, key) \<in> set ks \<Longrightarrow> set ks \<subseteq> set categories \<Longrightarrow> skipped s field
     \<Longrightarrow> get_briefing (snd (build_tasks ks s acc)) key = Some []"
proof (induction ks arbitrary: s acc)
  case Nil
  then show ?case by simp
next
  case (Cons entry rest)
  obtain f c k where entry: "entry = (f, c, k)" by (cases entry)
  from Cons.prems(2) have sub: "set rest \<subseteq> set categories" by simp
  show ?case
  proof (cases "skipped s f")
    case True
    then have unfold: "build_tasks (entry # rest) s acc = build_tasks rest (set_briefing k [] s) acc"
      by (auto simp: entry skipped_def split: option.splits)
    show ?thesis
    proof (cases "(field, cat, key) = (f, c, k)")
      case True
      with Cons.prems(2) entry have "(f, c, k) \<in> set categories" by simp
      then have "get_briefing (set_briefing k [] s) k = Some []"
        by (rule get_set_briefing_same)
      then have "get_briefing (snd (build_tasks rest (set_briefing k [] s) acc)) k = Some []"
        by (rule build_tasks_keeps_empty)
      with True unfold show ?thesis by simp
    next
      case False
      with Cons.prems(1) entry have later: "(field, cat, key) \<in> set rest" by auto
      have "skipped (set_briefing k [] s) field"
        using Cons.prems(3) by (simp add: skipped_set_briefing)
      from Cons.IH[OF later sub this] unfold show ?thesis by simp
    qed
  next
    case False
    then obtain docs where docs: "get_curated s (''curated_'' @ f) = Some docs" "nonempty_docs docs"
      by (auto simp: skipped_def split: option.splits)
    from False Cons.prems(1,3) entry have later: "(field, cat, key) \<in> set rest" by auto
    from Cons.IH[OF later sub Cons.prems(3)] docs entry show ?thesis by simp
  qed
qed

lemma send_status_update_result:
  "e \<in> set (snd (send_status_update m j st msg res)) \<Longrightarrow> ev_result e = res"
  by (cases m; cases j) (auto simp: send_status_update_def split: if_splits)

lemma briefing_start_about:
  "e \<in> set (snd (briefing_start ctx c docs)) \<Longrightarrow> about_category cat e \<Longrightarrow> cat = c"
  unfolding briefing_start_def about_category_def
  by (drule send_status_update_result) simp

lemma briefing_complete_about:
  "e \<in> set (snd (briefing_complete ctx c)) \<Longrightarrow> about_category cat e \<Longrightarrow> cat = c"
  unfolding briefing_complete_def about_category_def
  by (drule send_status_update_result) simp

lemma briefing_reply_events:
  "snd (briefing_reply ctx c r) = [] \<or> snd (briefing_reply ctx c r) = snd (briefing_complete ctx c)"
  by (cases "briefing_complete ctx c")
     (auto simp: briefing_reply_def split: sum.splits if_splits)

lemma briefing_reply_about:
  "e \<in> set (snd (briefing_reply ctx c r)) \<Longrightarrow> about_category cat e \<Longrightarrow> cat = c"
  using briefing_reply_events[of ctx c r] by (auto dest: briefing_complete_about)

lemma starting_event_about: "e \<in> set (starting_event s) \<Longrightarrow> \<not> about_category cat e"
  unfolding starting_event_def starting_send_def about_category_def
  by (drule send_status_update_result) simp

lemma dict_set_keys: "fst ` set (dict_set k v ps) = insert k (fst ` set ps)"
  by (induction ps) auto

lemma dict_set_length: "length (dict_set k v ps) \<le> Suc (length ps)"
  by (induction ps) auto

lemma step_keeps_skipped:
  assumes "cat \<notin> category ` set tasks" and "key \<notin> briefing_key ` set tasks"
    and "step tasks ctx a g = Some g'"
    and "get_briefing (g_state g) key = Some []"
    and "\<forall>e \<in> set (g_sent g). \<not> about_category cat e"
    and "cat \<notin> fst ` set (g_briefings g)"
  shows "get_briefing (g_state g') key = Some []
       \<and> (\<forall>e \<in> set (g_sent g'). \<not> about_category cat e)
       \<and> cat \<notin> fst ` set (g_briefings g')"
proof (cases a)
  case (Acquire i)
  with assms(3) have "g_state g' = g_state g" "g_sent g' = g_sent g" "g_briefings g' = g_briefings g"
    by (auto simp: step_def split: if_splits)
  with assms show ?thesis by simp
next
  case (Prepare i)
  with assms(3) have i: "i < length tasks"
    and same: "g_state g' = g_state g" "g_briefings g' = g_briefings g"
    and sent: "g_sent g' = g_sent g @ snd (briefing_start ctx (category (tasks ! i)) (curated_data (tasks ! i)))"
    by (auto simp: step_def split: if_splits sum.splits prod.splits)
  from i assms(1) have "category (tasks ! i) \<noteq> cat" by auto
  with sent assms(5) have "\<forall>e \<in> set (g_sent g'). \<not> about_category cat e"
    by (auto dest: briefing_start_about)
  with same assms show ?thesis by simp
next
  case (Reply i c)
  with assms(3) have i: "i < length tasks"
    and st: "g_state g' = set_briefing (briefing_key (tasks ! i))
                            (briefing_content (fst (briefing_reply ctx (category (tasks ! i)) c))) (g_state g)"
    and br: "g_briefings g' = g_briefings g
               \<or> g_briefings g' = dict_set (category (tasks ! i))
                    (briefing_content (fst (briefing_reply ctx (category (tasks ! i)) c))) (g_briefings g)"
    and sent: "g_sent g' = g_sent g @ snd (briefing_reply ctx (category (tasks ! i)) c)"
    by (auto simp: step_def Let_def split: if_splits)
  from i assms(1,2) have ne: "category (tasks ! i) \<noteq> cat" "briefing_key (tasks ! i) \<noteq> key" by auto
  from st ne(2) assms(4) have s: "get_briefing (g_state g') key = Some []"
    by (simp add: get_set_briefing_other)
  from sent ne(1) assms(5) have e: "\<forall>e \<in> set (g_sent g'). \<not> about_category cat e"
    by (auto dest: briefing_reply_about)
  have b: "cat \<notin> fst ` set (g_briefings g')"
  proof (cases "g_briefings g' = g_briefings g")
    case True
    with assms(6) show ?thesis by simp
  next
    case False
    with br have "fst ` set (g_briefings g') = insert (category (tasks ! i)) (fst ` set (g_briefings g))"
      by (simp add: dict_set_keys)
    with ne(1) assms(6) show ?thesis by simp
  qed
  from s e b show ?thesis by simp
qed

lemma run_schedule_keeps_skipped:
  assumes "cat \<notin> category ` set tasks" and "key \<notin> briefing_key ` set tasks"
  shows "run_schedule tasks ctx sched g = Some g' \<Longrightarrow>
         get_briefing (g_state g) key = Some [] \<Longrightarrow>
         \<forall>e \<in> set (g_sent g). \<not> about_category cat e \<Longrightarrow>
         cat \<notin> fst ` set (g_briefings g) \<Longrightarrow>
         get_briefing (g_state g') key = Some []
           \<and> (\<forall>e \<in> set (g_sent g'). \<not> about_category cat e)
           \<and> cat \<notin> fst ` set (g_briefings g')"
proof (induction sched arbitrary: g)
  case Nil
  then show ?case by simp
next
  case (Cons a sched)
  from Cons.prems(1) obtain g1 where g1: "step tasks ctx a g = Some g1"
    and rest: "run_schedule tasks ctx sched g1 = Some g'"
    by (auto split: option.splits)
  from step_keeps_skipped[OF assms g1 Cons.prems(2,3,4)]
  have "get_briefing (g_state g1) key = Some []" "\<forall>e \<in> set (g_sent g1). \<not> about_category cat e"
    "cat \<notin> fst ` set (g_briefings g1)"
    by simp_all
  from Cons.IH[OF rest this] show ?case .
qed

lemma step_briefings_count:
  assumes "length (g_phases g) = length tasks" and "length (g_briefings g) \<le> finished g"
    and "step tasks ctx a g = Some g'"
  shows "length (g_phases g') = length tasks \<and> length (g_briefings g') \<le> finished g'"
proof (cases a)
  case (Acquire i)
  with assms(3) have i: "i < length (g_phases g)" "g_phases g ! i = Waiting"
    and g': "g_phases g' = (g_phases g)[i := Admitted]" "g_briefings g' = g_briefings g"
    by (auto simp: step_def split: if_splits)
  from count_update[OF i(1), of "\<lambda>p. p = Finished" Admitted] i(2)
  have "finished g' = finished g" by (simp add: finished_def g')
  with assms(1,2) g' show ?thesis by simp
next
  case (Prepare i)
  with assms(3) have i: "i < length (g_phases g)" "g_phases g ! i = Admitted"
    and g': "g_phases g' = (g_phases g)[i := Calling] \<or> (\<exists>e. g_phases g' = (g_phases g)[i := Failed e])"
      "g_briefings g' = g_briefings g"
    by (auto simp: step_def split: if_splits sum.splits prod.splits)
  from g'(1) have "finished g' = finished g"
  proof
    assume p: "g_phases g' = (g_phases g)[i := Calling]"
    from count_update[OF i(1), of "\<lambda>p. p = Finished" Calling] i(2)
    show ?thesis by (simp add: finished_def p)
  next
    assume "\<exists>e. g_phases g' = (g_phases g)[i := Failed e]"
    then obtain e where p: "g_phases g' = (g_phases g)[i := Failed e]" ..
    from count_update[OF i(1), of "\<lambda>p. p = Finished" "Failed e"] i(2)
    show ?thesis by (simp add: finished_def p)
  qed
  moreover from g'(1) have "length (g_phases g') = length (g_phases g)" by auto
  ultimately show ?thesis using assms(1,2) g'(2) by simp
next
  case (Reply i c)
  with assms(3) have i: "i < length (g_phases g)" "g_phases g ! i = Calling"
    and g': "g_phases g' = (g_phases g)[i := Finished]"
    and br: "g_briefings g' = g_briefings g
               \<or> g_briefings g' = dict_set (category (tasks ! i))
                    (briefing_content (fst (briefing_reply ctx (category (tasks ! i)) c))) (g_briefings g)"
    by (auto simp: step_def Let_def split: if_splits)
  from count_update[OF i(1), of "\<lambda>p. p = Finished" Finished] i(2)
  have fin: "finished g' = finished g + 1" by (simp add: finished_def g')
  from br have "length (g_briefings g') \<le> Suc (length (g_briefings g))"
    using dict_set_length[of "category (tasks ! i)" _ "g_briefings g"] by auto
  with fin assms(1,2) g' show ?thesis by simp
qed

lemma run_schedule_briefings_count:
  "run_schedule tasks ctx sched g = Some g' \<Longrightarrow> length (g_phases g) = length tasks \<Longrightarrow>
   length (g_briefings g) \<le> finished g \<Longrightarrow>
   length (g_phases g') = length tasks \<and> length (g_briefings g') \<le> finished g'"
proof (induction sched arbitrary: g)
  case Nil
  then show ?case by simp
next
  case (Cons a sched)
  from Cons.prems(1) obtain g1 where g1: "step tasks ctx a g = Some g1"
    and rest: "run_schedule tasks ctx sched g1 = Some g'"
    by (auto split: option.splits)
  from step_briefings_count[OF Cons.prems(2,3) g1]
  have "length (g_phases g1) = length tasks" "length (g_briefings g1) \<le> finished g1" by simp_all
  from Cons.IH[OF rest this] show ?case .
qed

lemma finished_le_tasks: "finished g \<le> length (g_phases g)"
  by (simp add: finished_def)

lemma skipped_not_a_task:
  assumes "(field, cat, key) \<in> set categories" and "skipped s field"
  shows "cat \<notin> category ` set (fst (prepare_briefings s))"
    and "key \<notin> briefing_key ` set (fst (prepare_briefings s))"
proof -
  have origin: "(data_field t, category t, briefing_key t) \<in> set categories \<and> \<not> skipped s (data_field t)"
    if "t \<in> set (fst (prepare_briefings s))" for t
    using build_tasks_origin[of t categories s "[]"] that by (simp add: prepare_briefings_def)
  show "cat \<notin> category ` set (fst (prepare_briefings s))"
  proof
    assume "cat \<in> category ` set (fst (prepare_briefings s))"
    then obtain t where t: "t \<in> set (fst (prepare_briefings s))" "category t = cat" by auto
    from origin[OF t(1)] categories_functional[OF assms(1), of "data_field t" "category t" "briefing_key t"] t(2)
    have "field = data_field t" by simp
    with origin[OF t(1)] assms(2) show False by simp
  qed
  show "key \<notin> briefing_key ` set (fst (prepare_briefings s))"
  proof
    assume "key \<in> briefing_key ` set (fst (prepare_briefings s))"
    then obtain t where t: "t \<in> set (fst (prepare_briefings s))" "briefing_key t = key" by auto
    from origin[OF t(1)] categories_functional[OF assms(1), of "data_field t" "category t" "briefing_key t"] t(2)
    have "field = data_field t" by simp
    with origin[OF t(1)] assms(2) show False by simp
  qed
qed

lemma reached_keeps_skipped:
  assumes "(field, cat, key) \<in> set categories" and "skipped s field"
    and "run_schedule (fst (prepare_briefings s)) (briefing_context s) sched
           (start_gather (fst (prepare_briefings s)) (snd (prepare_briefings s)) (starting_event s)) = Some g"
  shows "get_briefing (g_state g) key = Some []"
    and "\<forall>e \<in> set (g_sent g). \<not> about_category cat e"
    and "cat \<notin> fst ` set (g_briefings g)"
    and "length (g_briefings g) \<le> length (fst (prepare_briefings s))"
proof -
  let ?tasks = "fst (prepare_briefings s)"
  let ?g0 = "start_gather ?tasks (snd (prepare_briefings s)) (starting_event s)"
  have sub: "set categories \<subseteq> set categories" by simp
  have s0: "get_briefing (g_state ?g0) key = Some []"
    using build_tasks_sets_empty[OF assms(1) sub assms(2), of "[]"]
    by (simp add: start_gather_def prepare_briefings_def)
  have e0: "\<forall>e \<in> set (g_sent ?g0). \<not> about_category cat e"
    by (auto simp: start_gather_def dest: starting_event_about)
  have b0: "cat \<notin> fst ` set (g_briefings ?g0)"
    by (simp add: start_gather_def)
  from run_schedule_keeps_skipped[OF skipped_not_a_task[OF assms(1,2)] assms(3) s0 e0 b0]
  show "get_briefing (g_state g) key = Some []" "\<forall>e \<in> set (g_sent g). \<not> about_category cat e"
    "cat \<notin> fst ` set (g_briefings g)"
    by simp_all
  have "length (g_phases ?g0) = length ?tasks" "length (g_briefings ?g0) \<le> finished ?g0"
    by (simp_all add: start_gather_def)
  from run_schedule_briefings_count[OF assms(3) this] finished_le_tasks[of g]
  show "length (g_briefings g) \<le> length ?tasks" by simp
qed

text \<open>
  Claim C8. For every state and each of the four categories whose curated dataset is missing
  or empty: no task is created for the category; its briefing key is set to the empty text
  before the tasks run and still holds it in every state the tasks can reach and in the
  state returned; no event sent names the category; and the category is no key of the
  \<open>briefings\<close> map stored at the end, which has at most as many keys as there are tasks.
\<close>

theorem empty_categories_skipped:
  assumes "(field, cat, key) \<in> set categories" and "skipped s field"
  shows "cat \<notin> category ` set (fst (prepare_briefings s))
       \<and> get_briefing (snd (prepare_briefings s)) key = Some []
       \<and> (\<forall>sched g.
             run_schedule (fst (prepare_briefings s)) (briefing_context s) sched
               (start_gather (fst (prepare_briefings s)) (snd (prepare_briefings s)) (starting_event s))
               = Some g \<longrightarrow>
             get_briefing (g_state g) key = Some [] \<and> (\<forall>e \<in> set (g_sent g). \<not> about_category cat e))
       \<and> (\<forall>sched s' evs.
             create_briefings sched s = Some (Inr s', evs) \<longrightarrow>
             get_briefing s' key = Some [] \<and> (\<forall>e \<in> set evs. \<not> about_category cat e)
             \<and> (\<exists>b. briefings s' = Some b \<and> cat \<notin> fst ` set b
                    \<and> length b \<le> length (fst (prepare_briefings s))))"
proof -
  let ?tasks = "fst (prepare_briefings s)"
  let ?s1 = "snd (prepare_briefings s)"
  have sub: "set categories \<subseteq> set categories" by simp
  have notask: "cat \<notin> category ` set ?tasks"
    by (rule skipped_not_a_task(1)[OF assms])
  have set1: "get_briefing ?s1 key = Some []"
    using build_tasks_sets_empty[OF assms(1) sub assms(2), of "[]"]
    by (simp add: prepare_briefings_def)
  have reach: "get_briefing (g_state g) key = Some [] \<and> (\<forall>e \<in> set (g_sent g). \<not> about_category cat e)"
    if "run_schedule ?tasks (briefing_context s) sched (start_gather ?tasks ?s1 (starting_event s)) = Some g"
    for sched g
    using reached_keeps_skipped(1,2)[OF assms that] by simp
  have final: "get_briefing s' key = Some [] \<and> (\<forall>e \<in> set evs. \<not> about_category cat e)
             \<and> (\<exists>b. briefings s' = Some b \<and> cat \<notin> fst ` set b \<and> length b \<le> length ?tasks)"
    if cb: "create_briefings sched s = Some (Inr s', evs)" for sched s' evs
  proof (cases "?tasks = []")
    case True
    with cb have "s' = ?s1\<lparr>briefings := Some []\<rparr>" "evs = starting_event s"
      by (auto simp: create_briefings_def Let_def split: sum.splits)
    with set1 show ?thesis
      by (auto simp: get_briefing_briefings_update dest: starting_event_about)
  next
    case False
    with cb obtain g
      where g: "run_schedule ?tasks (briefing_context s) sched (start_gather ?tasks ?s1 (starting_event s)) = Some g"
        and s': "s' = (g_state g)\<lparr>briefings := Some (g_briefings g)\<rparr>" and evs: "evs = g_sent g"
      by (auto simp: create_briefings_def Let_def split: option.splits if_splits sum.splits)
    from reached_keeps_skipped[OF assms g] s' evs show ?thesis
      by (simp add: get_briefing_briefings_update)
  qed
  from notask set1 reach final show ?thesis by blast
qed

lemma example_prepare:
  "prepare_briefings example_state
     = ([company_task, financial_task],
        example_state\<lparr>revenue_briefing := Some [], industry_briefing := Some []\<rparr>)"
  by (simp add: prepare_briefings_def categories_def get_curated_def set_briefing_def nonempty_docs_def
      example_state_def empty_state_def company_task_def financial_task_def)

lemma example_skipped: "skipped example_state ''revenue_data''"
  by (simp add: skipped_def get_curated_def example_state_def empty_state_def nonempty_docs_def)

lemma task_texts:
  "\<exists>blocks. doc_texts (curated_data company_task) = Inr blocks"
  "\<exists>blocks. doc_texts (curated_data financial_task) = Inr blocks"
  by (simp_all add: company_task_def financial_task_def doc_texts_def sorted_items_def items_def)

lemma example_run:
  "\<exists>s' evs. create_briefings example_schedule example_state = Some (Inr s', evs)
      \<and> map category (fst (prepare_briefings example_state)) = [''company'', ''financial'']
      \<and> briefings s' = Some [(''company'', ''Acme makes tools'')]
      \<and> company_briefing s' = Some ''Acme makes tools''
      \<and> financial_briefing s' = Some []
      \<and> industry_briefing s' = Some []
      \<and> map ev_status evs = [''processing'', ''briefing_start'', ''briefing_start'', ''briefing_complete'']"
proof -
  obtain b1 b2 where b: "doc_texts (curated_data company_task) = Inr b1"
      "doc_texts (curated_data financial_task) = Inr b2"
    using task_texts by blast
  have strip: "strip ''Acme makes tools'' = ''Acme makes tools''"
    by (simp add: strip_def isspace_def)
  have first_send: "starting_send example_state
      = (Inr (), [\<lparr>ev_job_id = ''job-1'', ev_status = ''processing'',
                     ev_message = ''Starting research briefings'',
                     ev_result = [(''step'', Text ''Briefing'')]\<rparr>])"
    by (simp add: starting_send_def send_status_update_def delivering_def example_state_def
        empty_state_def)
  have ctx: "ctx_websocket_manager (briefing_context example_state) = Some delivering"
      "ctx_job_id (briefing_context example_state) = Some ''job-1''"
    by (simp_all add: briefing_context_def example_state_def empty_state_def)
  show ?thesis
    by (simp add: create_briefings_def example_prepare example_schedule_def start_gather_def step_def b
        briefing_reply_def response_content_def strip briefing_start_def briefing_complete_def
        send_status_update_def delivering_def ctx starting_event_def first_send
        set_briefing_def Let_def)
       (simp add: example_state_def empty_state_def company_task_def financial_task_def)
qed

text \<open>
  The example of the specification under one schedule: two tasks, for company and financial;
  the revenue and industry briefings are the empty text; the stored map has one key, so at
  most 2; and no event names the revenue category.
\<close>

theorem empty_categories_skipped_witness:
  "(''revenue_data'', ''revenue'', ''revenue_briefing'') \<in> set categories
   \<and> skipped example_state ''revenue_data''
   \<and> map category (fst (prepare_briefings example_state)) = [''company'', ''financial'']
   \<and> (\<exists>s' evs b. create_briefings example_schedule example_state = Some (Inr s', evs)
          \<and> revenue_briefing s' = Some [] \<and> industry_briefing s' = Some []
          \<and> briefings s' = Some b \<and> length b \<le> 2
          \<and> list_all (\<lambda>e. \<not> about_category ''revenue'' e) evs
          \<and> map ev_status evs = [''processing'', ''briefing_start'', ''briefing_start'', ''briefing_complete''])"
proof -
  have entry: "(''revenue_data'', ''revenue'', ''revenue_briefing'') \<in> set categories"
    by (simp add: categories_def)
  from example_run obtain s' evs
    where run: "create_briefings example_schedule example_state = Some (Inr s', evs)"
      and tasks: "map category (fst (prepare_briefings example_state)) = [''company'', ''financial'']"
      and industry: "industry_briefing s' = Some []"
      and statuses: "map ev_status evs = [''processing'', ''briefing_start'', ''briefing_start'', ''briefing_complete'']"
    by (elim exE conjE) (rule that, assumption+)
  from tasks have two: "length (fst (prepare_briefings example_state)) = 2"
    by (metis length_map length_Cons list.size(3) One_nat_def Suc_1)
  from empty_categories_skipped[OF entry example_skipped] run
  obtain b where revenue: "get_briefing s' ''revenue_briefing'' = Some []"
      and quiet: "\<forall>e \<in> set evs. \<not> about_category ''revenue'' e"
      and b: "briefings s' = Some b" "length b \<le> length (fst (prepare_briefings example_state))"
    by blast
  from revenue have rev: "revenue_briefing s' = Some []" by (simp add: get_briefing_def)
  from quiet have silent: "list_all (\<lambda>e. \<not> about_category ''revenue'' e) evs"
    by (simp add: list_all_iff)
  from b two have atmost: "length b \<le> 2" by simp
  have "\<exists>s' evs b. create_briefings example_schedule example_state = Some (Inr s', evs)
          \<and> revenue_briefing s' = Some [] \<and> industry_briefing s' = Some []
          \<and> briefings s' = Some b \<and> length b \<le> 2
          \<and> list_all (\<lambda>e. \<not> about_category ''revenue'' e) evs
          \<and> map ev_status evs = [''processing'', ''briefing_start'', ''briefing_start'', ''briefing_complete'']"
    by (rule exI[of _ s'], rule exI[of _ evs], rule exI[of _ b])
       (simp only: run rev industry b(1) atmost silent statuses simp_thms)
  with entry example_skipped tasks show ?thesis by (intro conjI)
qed

section \<open>The Editor's fallbacks\<close>

lemma strip_trimmed_id: "trimmed s \<Longrightarrow> strip s = s"
proof (cases s)
  case Nil
  then show ?thesis by (simp add: strip_def)
next
  case (Cons x xs)
  assume "trimmed s"
  with Cons have first_ok: "\<not> isspace (hd s)" and last_ok: "\<not> isspace (last s)"
    by (auto simp: trimmed_def)
  from first_ok Cons have a: "dropWhile isspace s = s" by simp
  from Cons have "rev s \<noteq> []" by simp
  moreover from last_ok have "\<not> isspace (hd (rev s))" by (metis hd_rev)
  ultimately have "dropWhile isspace (rev s) = rev s" by (cases "rev s") auto
  with a show ?thesis by (simp add: strip_def)
qed

lemma last_dropWhile_nonempty: "dropWhile P xs \<noteq> [] \<Longrightarrow> last (dropWhile P xs) = last xs"
  by (metis last_appendR takeWhile_dropWhile_id)

lemma trimmed_strip: "trimmed (strip s)"
proof -
  let ?a = "dropWhile isspace s"
  let ?b = "dropWhile isspace (rev ?a)"
  show ?thesis
  proof (cases "?b = []")
    case True
    then show ?thesis by (simp add: strip_def trimmed_def)
  next
    case False
    then have hb: "\<not> isspace (hd ?b)" by (simp add: hd_dropWhile)
    from False have an: "?a \<noteq> []" by (metis dropWhile.simps(1) rev.simps(1))
    then have ha: "\<not> isspace (hd ?a)" by (simp add: hd_dropWhile)
    have "last ?b = last (rev ?a)" using False by (rule last_dropWhile_nonempty)
    also have "\<dots> = hd ?a" using an by (simp add: last_rev)
    finally have lb: "\<not> isspace (last ?b)" using ha by simp
    from False hb lb show ?thesis
      by (simp add: strip_def trimmed_def hd_rev last_rev)
  qed
qed

lemma strip_idem: "strip (strip s) = strip s"
  by (rule strip_trimmed_id[OF trimmed_strip])

lemma dict_set_fresh: "k \<notin> fst ` set ps \<Longrightarrow> dict_set k v ps = ps @ [(k, v)]"
  by (induction ps) auto

lemma collect_briefings_found:
  "distinct (map fst ks) \<Longrightarrow> fst ` set ks \<inter> fst ` set acc = {} \<Longrightarrow>
   fst (collect_briefings ks s acc msg)
     = acc @ concat (map (\<lambda>(cat, key). case get_briefing s key of
                                          Some txt \<Rightarrow> if txt \<noteq> [] then [(cat, txt)] else []
                                        | None \<Rightarrow> []) ks)"
proof (induction ks arbitrary: acc msg)
  case Nil
  then show ?case by simp
next
  case (Cons k ks)
  obtain c key where k: "k = (c, key)" by (cases k)
  from Cons.prems k have fresh: "c \<notin> fst ` set acc" by auto
  from Cons.prems k have dks: "distinct (map fst ks)" and cks: "c \<notin> fst ` set ks" by auto
  from Cons.prems k have disj: "fst ` set ks \<inter> fst ` set acc = {}" by auto
  show ?case
  proof (cases "\<exists>txt. get_briefing s key = Some txt \<and> txt \<noteq> []")
    case True
    then obtain tx where t: "get_briefing s key = Some tx" "tx \<noteq> []" by blast
    have "fst ` set ks \<inter> fst ` set (acc @ [(c, tx)]) = {}" using disj cks by auto
    from Cons.IH[OF dks this] show ?thesis
      using t k by (simp add: dict_set_fresh[OF fresh])
  next
    case False
    from Cons.IH[OF dks disj] show ?thesis
      using False k by (auto split: option.splits)
  qed
qed

lemma collect_briefings_available:
  "fst (collect_briefings briefing_keys s [] msg) = available_briefings s"
proof -
  have "distinct (map fst briefing_keys)" by (simp add: briefing_keys_def)
  from collect_briefings_found[OF this, of "[]" s msg] show ?thesis
    by (simp add: available_briefings_def)
qed

subsection \<open>What the briefing node leaves in the state\<close>

lemma trimmed_empty: "trimmed []"
  by (simp add: trimmed_def)

lemma briefing_reply_trimmed: "trimmed (briefing_content (fst (briefing_reply ctx c r)))"
  by (auto simp: briefing_reply_def response_content_def trimmed_empty trimmed_strip
      split: sum.splits prod.splits completion.splits option.splits)

lemma set_briefing_keeps_trimmed:
  assumes "trimmed v" and "\<exists>t. get_briefing s key = Some t \<and> trimmed t"
  shows "\<exists>t. get_briefing (set_briefing k v s) key = Some t \<and> trimmed t"
proof (cases "k = key")
  case False
  with assms(2) show ?thesis by (simp add: get_set_briefing_other)
next
  case True
  with assms show ?thesis
    by (auto simp: get_briefing_def set_briefing_def split: if_splits)
qed

text \<open>
  A move leaves the state as it is, or it is the end of task \<open>i\<close>, which writes a trimmed
  text under the task's key; no other task becomes finished by it.
\<close>

lemma step_state:
  assumes "step tasks ctx a g = Some g'"
  shows "length (g_phases g') = length (g_phases g) \<and>
     ((g_state g' = g_state g \<and> (\<forall>j. g_phases g' ! j = Finished \<longrightarrow> g_phases g ! j = Finished))
      \<or> (\<exists>i v. i < length tasks \<and> trimmed v
            \<and> g_state g' = set_briefing (briefing_key (tasks ! i)) v (g_state g)
            \<and> (\<forall>j. g_phases g' ! j = Finished \<longrightarrow> j = i \<or> g_phases g ! j = Finished)))"
proof (cases a)
  case (Acquire i)
  with assms have i: "i < length (g_phases g)"
    and g': "g_phases g' = (g_phases g)[i := Admitted]" "g_state g' = g_state g"
    by (auto simp: step_def split: if_splits)
  have "\<forall>j. g_phases g' ! j = Finished \<longrightarrow> g_phases g ! j = Finished"
    using i g'(1) by (metis nth_list_update phase.distinct(11))
  with g' show ?thesis by simp
next
  case (Prepare i)
  with assms have i: "i < length (g_phases g)"
    and ph: "g_phases g' = (g_phases g)[i := Calling] \<or> (\<exists>e. g_phases g' = (g_phases g)[i := Failed e])"
    and st: "g_state g' = g_state g"
    by (auto simp: step_def split: if_splits sum.splits prod.splits)
  from ph obtain p where p: "g_phases g' = (g_phases g)[i := p]" "p \<noteq> Finished" by auto
  have "\<forall>j. g_phases g' ! j = Finished \<longrightarrow> g_phases g ! j = Finished"
    using i p by (metis nth_list_update)
  with p(1) st show ?thesis by simp
next
  case (Reply i c)
  let ?v = "briefing_content (fst (briefing_reply ctx (category (tasks ! i)) c))"
  from Reply assms have i: "i < length tasks"
    and ph: "g_phases g' = (g_phases g)[i := Finished]"
    and st: "g_state g' = set_briefing (briefing_key (tasks ! i)) ?v (g_state g)"
    by (auto simp: step_def Let_def split: if_splits)
  have "\<forall>j. g_phases g' ! j = Finished \<longrightarrow> j = i \<or> g_phases g ! j = Finished"
    using ph by (metis nth_list_update_neq)
  with i st briefing_reply_trimmed[of ctx "category (tasks ! i)" c] ph show ?thesis
    by auto
qed

lemma step_keeps_trimmed:
  assumes "step tasks ctx a g = Some g'"
    and "\<exists>t. get_briefing (g_state g) key = Some t \<and> trimmed t"
  shows "\<exists>t. get_briefing (g_state g') key = Some t \<and> trimmed t"
  using step_state[OF assms(1)] assms(2) set_briefing_keeps_trimmed by auto

lemma run_schedule_keeps_trimmed:
  "run_schedule tasks ctx sched g = Some g' \<Longrightarrow>
   \<exists>t. get_briefing (g_state g) key = Some t \<and> trimmed t \<Longrightarrow>
   \<exists>t. get_briefing (g_state g') key = Some t \<and> trimmed t"
proof (induction sched arbitrary: g)
  case Nil
  then show ?case by simp
next
  case (Cons a sched)
  from Cons.prems(1) obtain g1 where g1: "step tasks ctx a g = Some g1"
    and rest: "run_schedule tasks ctx sched g1 = Some g'"
    by (auto split: option.splits)
  from step_keeps_trimmed[OF g1 Cons.prems(2)] show ?case by (rule Cons.IH[OF rest])
qed

lemma step_finished_trimmed:
  assumes keys: "\<forall>t \<in> set tasks. \<exists>f c. (f, c, briefing_key t) \<in> set categories"
    and st: "step tasks ctx a g = Some g'"
    and inv: "\<forall>j < length tasks. g_phases g ! j = Finished \<longrightarrow>
                (\<exists>t. get_briefing (g_state g) (briefing_key (tasks ! j)) = Some t \<and> trimmed t)"
  shows "\<forall>j < length tasks. g_phases g' ! j = Finished \<longrightarrow>
                (\<exists>t. get_briefing (g_state g') (briefing_key (tasks ! j)) = Some t \<and> trimmed t)"
proof (intro allI impI)
  fix j
  assume j: "j < length tasks" and fin: "g_phases g' ! j = Finished"
  from step_state[OF st]
  consider (same) "g_state g' = g_state g" "g_phases g ! j = Finished"
    | (ended) i v where "i < length tasks" "trimmed v"
        "g_state g' = set_briefing (briefing_key (tasks ! i)) v (g_state g)"
        "j = i \<or> g_phases g ! j = Finished"
    using fin by blast
  then show "\<exists>t. get_briefing (g_state g') (briefing_key (tasks ! j)) = Some t \<and> trimmed t"
  proof cases
    case same
    with inv j show ?thesis by simp
  next
    case ended
    show ?thesis
    proof (cases "briefing_key (tasks ! j) = briefing_key (tasks ! i)")
      case True
      from keys ended(1) obtain f c where "(f, c, briefing_key (tasks ! i)) \<in> set categories"
        by (meson nth_mem)
      then have "get_briefing (g_state g') (briefing_key (tasks ! i)) = Some v"
        unfolding ended(3) by (rule get_set_briefing_same)
      with True ended(2) show ?thesis by simp
    next
      case False
      with ended(4) have "g_phases g ! j = Finished" by auto
      with inv j have "\<exists>t. get_briefing (g_state g) (briefing_key (tasks ! j)) = Some t \<and> trimmed t"
        by simp
      with False show ?thesis
        unfolding ended(3) by (simp add: get_set_briefing_other)
    qed
  qed
qed

lemma run_schedule_finished_trimmed:
  assumes keys: "\<forall>t \<in> set tasks. \<exists>f c. (f, c, briefing_key t) \<in> set categories"
  shows "run_schedule tasks ctx sched g = Some g' \<Longrightarrow>
     \<forall>j < length tasks. g_phases g ! j = Finished \<longrightarrow>
        (\<exists>t. get_briefing (g_state g) (briefing_key (tasks ! j)) = Some t \<and> trimmed t) \<Longrightarrow>
     (\<forall>j < length tasks. g_phases g' ! j = Finished \<longrightarrow>
        (\<exists>t. get_briefing (g_state g') (briefing_key (tasks ! j)) = Some t \<and> trimmed t))
     \<and> length (g_phases g') = length (g_phases g)"
proof (induction sched arbitrary: g)
  case Nil
  then show ?case by simp
next
  case (Cons a sched)
  from Cons.prems(1) obtain g1 where g1: "step tasks ctx a g = Some g1"
    and rest: "run_schedule tasks ctx sched g1 = Some g'"
    by (auto split: option.splits)
  from step_state[OF g1] have len: "length (g_phases g1) = length (g_phases g)" by simp
  from Cons.IH[OF rest step_finished_trimmed[OF keys g1 Cons.prems(2)]] len show ?case by simp
qed

lemma build_tasks_acc: "set acc \<subseteq> set (fst (build_tasks ks s acc))"
proof (induction ks arbitrary: s acc)
  case Nil
  show ?case by simp
next
  case (Cons entry rest)
  obtain f c k where entry: "entry = (f, c, k)" by (cases entry)
  show ?case
  proof (cases "skipped s f")
    case True
    then have "build_tasks (entry # rest) s acc = build_tasks rest (set_briefing k [] s) acc"
      by (auto simp: entry skipped_def split: option.splits)
    with Cons.IH[of acc "set_briefing k [] s"] show ?thesis by simp
  next
    case False
    then obtain docs where docs: "get_curated s (''curated_'' @ f) = Some docs" "nonempty_docs docs"
      by (auto simp: skipped_def split: option.splits)
    from Cons.IH[of "acc @ [\<lparr>category = c, briefing_key = k, data_field = f, curated_data = docs\<rparr>]" s]
    show ?thesis using docs entry by auto
  qed
qed

text \<open>Every entry of the loop of lines 243 to 259 gives a task or sets its key to \<open>""\<close>.\<close>

lemma build_tasks_covers:
  "(field, cat, key) \<in> set ks \<Longrightarrow> set ks \<subseteq> set categories \<Longrightarrow>
     (\<exists>t \<in> set (fst (build_tasks ks s acc)). briefing_key t = key)
     \<or> get_briefing (snd (build_tasks ks s acc)) key = Some []"
proof (induction ks arbitrary: s acc)
  case Nil
  then show ?case by simp
next
  case (Cons entry rest)
  obtain f c k where entry: "entry = (f, c, k)" by (cases entry)
  from Cons.prems(2) have sub: "set rest \<subseteq> set categories" by simp
  show ?case
  proof (cases "skipped s f")
    case True
    then have unfold: "build_tasks (entry # rest) s acc = build_tasks rest (set_briefing k [] s) acc"
      by (auto simp: entry skipped_def split: option.splits)
    show ?thesis
    proof (cases "(field, cat, key) = (f, c, k)")
      case True
      with Cons.prems(2) entry have "(f, c, k) \<in> set categories" by simp
      then have "get_briefing (set_briefing k [] s) k = Some []"
        by (rule get_set_briefing_same)
      then have "get_briefing (snd (build_tasks rest (set_briefing k [] s) acc)) k = Some []"
        by (rule build_tasks_keeps_empty)
      with True unfold show ?thesis by simp
    next
      case False
      with Cons.prems(1) entry have later: "(field, cat, key) \<in> set rest" by auto
      from Cons.IH[OF later sub, of "set_briefing k [] s" acc] unfold show ?thesis by simp
    qed
  next
    case False
    then obtain docs where docs: "get_curated s (''curated_'' @ f) = Some docs" "nonempty_docs docs"
      by (auto simp: skipped_def split: option.splits)
    let ?t = "\<lparr>category = c, briefing_key = k, data_field = f, curated_data = docs\<rparr>"
    from docs entry have unfold: "build_tasks (entry # rest) s acc = build_tasks rest s (acc @ [?t])"
      by simp
    show ?thesis
    proof (cases "(field, cat, key) = (f, c, k)")
      case True
      have "?t \<in> set (fst (build_tasks rest s (acc @ [?t])))"
        using build_tasks_acc[of "acc @ [?t]" rest s] by auto
      with True unfold show ?thesis by force
    next
      case False
      with Cons.prems(1) entry have later: "(field, cat, key) \<in> set rest" by auto
      from Cons.IH[OF later sub, of s "acc @ [?t]"] unfold show ?thesis by simp
    qed
  qed
qed

text \<open>
  Line 184 trims every text before lines 277 and 281 write it, and line 259 writes \<open>""\<close>:
  in a state that \<open>create_briefings\<close> returns, each of the four briefing keys holds a
  trimmed text.
\<close>

lemma create_briefings_trimmed:
  assumes cb: "create_briefings sched s0 = Some (Inr s, evs)"
    and entry: "(f, c, k) \<in> set categories"
  shows "\<exists>t. get_briefing s k = Some t \<and> trimmed t"
proof -
  let ?tasks = "fst (prepare_briefings s0)"
  let ?s1 = "snd (prepare_briefings s0)"
  have keys: "\<forall>t \<in> set ?tasks. \<exists>f c. (f, c, briefing_key t) \<in> set categories"
    using build_tasks_origin[of _ categories s0 "[]"] by (auto simp: prepare_briefings_def)
  from build_tasks_covers[OF entry subset_refl, of s0 "[]"]
  have cover: "(\<exists>t \<in> set ?tasks. briefing_key t = k) \<or> get_briefing ?s1 k = Some []"
    by (simp add: prepare_briefings_def)
  show ?thesis
  proof (cases "?tasks = []")
    case True
    with cb have s: "s = ?s1\<lparr>briefings := Some []\<rparr>"
      by (auto simp: create_briefings_def Let_def split: sum.splits)
    from cover True have "get_briefing ?s1 k = Some []" by simp
    with s show ?thesis by (simp add: get_briefing_briefings_update trimmed_empty)
  next
    case False
    let ?g0 = "start_gather ?tasks ?s1 (starting_event s0)"
    from False cb obtain g
      where g: "run_schedule ?tasks (briefing_context s0) sched ?g0 = Some g"
        and s: "s = (g_state g)\<lparr>briefings := Some (g_briefings g)\<rparr>"
        and fin: "list_all (\<lambda>p. p = Finished) (g_phases g)"
      by (auto simp: create_briefings_def Let_def split: option.splits if_splits sum.splits)
    have start: "\<forall>j < length ?tasks. g_phases ?g0 ! j = Finished \<longrightarrow>
        (\<exists>t. get_briefing (g_state ?g0) (briefing_key (?tasks ! j)) = Some t \<and> trimmed t)"
      by (simp add: start_gather_def)
    from run_schedule_finished_trimmed[OF keys g start]
    have ended: "\<forall>j < length ?tasks. g_phases g ! j = Finished \<longrightarrow>
        (\<exists>t. get_briefing (g_state g) (briefing_key (?tasks ! j)) = Some t \<and> trimmed t)"
      and len: "length (g_phases g) = length ?tasks"
      by (simp_all add: start_gather_def)
    from cover have "\<exists>t. get_briefing (g_state g) k = Some t \<and> trimmed t"
    proof
      assume "\<exists>t \<in> set ?tasks. briefing_key t = k"
      then obtain j where j: "j < length ?tasks" "briefing_key (?tasks ! j) = k"
        by (auto simp: in_set_conv_nth)
      from fin len j(1) have "g_phases g ! j = Finished"
        by (simp add: list_all_length)
      with ended j show ?thesis by auto
    next
      assume "get_briefing ?s1 k = Some []"
      then have "\<exists>t. get_briefing (g_state ?g0) k = Some t \<and> trimmed t"
        by (simp add: start_gather_def trimmed_empty)
      from run_schedule_keeps_trimmed[OF g this] show ?thesis .
    qed
    with s show ?thesis by (simp add: get_briefing_briefings_update)
  qed
qed

lemma briefing_keys_categories:
  assumes "(c, k) \<in> set briefing_keys"
  shows "\<exists>f. (f, c, k) \<in> set categories"
proof -
  from assms consider "(c, k) = (''company'', ''company_briefing'')"
    | "(c, k) = (''industry'', ''industry_briefing'')"
    | "(c, k) = (''financial'', ''financial_briefing'')"
    | "(c, k) = (''revenue'', ''revenue_briefing'')"
    unfolding briefing_keys_def by fastforce
  then show ?thesis
  proof cases
    case 1
    then have "(''company_data'', c, k) \<in> set categories" by (simp add: categories_def)
    then show ?thesis ..
  next
    case 2
    then have "(''industry_data'', c, k) \<in> set categories" by (simp add: categories_def)
    then show ?thesis ..
  next
    case 3
    then have "(''financial_data'', c, k) \<in> set categories" by (simp add: categories_def)
    then show ?thesis ..
  next
    case 4
    then have "(''revenue_data'', c, k) \<in> set categories" by (simp add: categories_def)
    then show ?thesis ..
  qed
qed

lemma available_briefings_trimmed:
  assumes "\<And>c k. (c, k) \<in> set briefing_keys \<Longrightarrow> \<exists>t. get_briefing s k = Some t \<and> trimmed t"
  shows "\<forall>p \<in> set (available_briefings s). snd p \<noteq> [] \<and> trimmed (snd p)"
proof
  fix p
  assume "p \<in> set (available_briefings s)"
  then obtain c k where ck: "(c, k) \<in> set briefing_keys"
    and p: "p \<in> set (case get_briefing s k of
                         Some txt \<Rightarrow> if txt \<noteq> [] then [(c, txt)] else []
                       | None \<Rightarrow> [])"
    unfolding available_briefings_def by auto
  from assms[OF ck] obtain t where "get_briefing s k = Some t" "trimmed t" by blast
  with p show "snd p \<noteq> [] \<and> trimmed (snd p)" by (auto split: if_splits)
qed

lemma join_ends:
  "xs \<noteq> [] \<Longrightarrow> \<forall>x \<in> set xs. x \<noteq> [] \<Longrightarrow>
     join sep xs \<noteq> [] \<and> hd (join sep xs) = hd (hd xs) \<and> last (join sep xs) = last (last xs)"
  by (induction sep xs rule: join.induct) auto

lemma join_trimmed:
  assumes "\<forall>x \<in> set xs. x \<noteq> [] \<and> trimmed x"
  shows "trimmed (join sep xs)"
proof (cases "xs = []")
  case True
  then show ?thesis by (simp add: trimmed_empty)
next
  case False
  with assms join_ends[of xs sep]
  have ends: "hd (join sep xs) = hd (hd xs)" "last (join sep xs) = last (last xs)" by auto
  from False have "hd xs \<in> set xs" "last xs \<in> set xs" by simp_all
  with assms have "\<not> isspace (hd (hd xs))" "\<not> isspace (last (last xs))"
    by (auto simp: trimmed_def)
  with ends show ?thesis by (simp add: trimmed_def)
qed

text \<open>The handler of lines 280 to 282, for any dict of briefings.\<close>

lemma compile_content_handler:
  assumes "compile_reply env = Raises"
    and "references s = [] \<or> (\<exists>t. references_section env = Inr t)"
  shows "compile_content ectx s brs env = Inr (strip (join ''\<newline>\<newline>'' (map snd brs)))"
  using assms by (auto simp: compile_content_def response_content_def)

lemma padded_run:
  "\<exists>s evs. create_briefings padded_schedule example_state = Some (Inr s, evs)
      \<and> company_briefing s = Some ''Acme makes tools''
      \<and> financial_briefing s = Some ''Raised 5M''
      \<and> industry_briefing s = Some []
      \<and> revenue_briefing s = Some []
      \<and> references s = []"
proof -
  obtain b1 b2 where b: "doc_texts (curated_data company_task) = Inr b1"
      "doc_texts (curated_data financial_task) = Inr b2"
    using task_texts by blast
  have strip: "strip '' Acme makes tools\<newline>'' = ''Acme makes tools''" "strip ''Raised 5M '' = ''Raised 5M''"
    by (simp_all add: strip_def isspace_def)
  have first_send: "starting_send example_state
      = (Inr (), [\<lparr>ev_job_id = ''job-1'', ev_status = ''processing'',
                     ev_message = ''Starting research briefings'',
                     ev_result = [(''step'', Text ''Briefing'')]\<rparr>])"
    by (simp add: starting_send_def send_status_update_def delivering_def example_state_def
        empty_state_def)
  have ctx: "ctx_websocket_manager (briefing_context example_state) = Some delivering"
      "ctx_job_id (briefing_context example_state) = Some ''job-1''"
    by (simp_all add: briefing_context_def example_state_def empty_state_def)
  show ?thesis
    by (simp add: create_briefings_def example_prepare padded_schedule_def start_gather_def step_def b
        briefing_reply_def response_content_def strip briefing_start_def briefing_complete_def
        send_status_update_def delivering_def ctx starting_event_def first_send
        set_briefing_def Let_def)
       (simp add: example_state_def empty_state_def company_task_def financial_task_def)
qed

text \<open>
  Claim C6. In every state that \<open>create_briefings\<close> returns, which is the state the Editor
  receives, when the compilation call raises (the reference formatter having returned, or
  there being no references), \<open>compile_content\<close> raises nothing and returns the raw
  concatenation of the available briefing texts, joined by blank lines: the trim of its
  handler changes nothing, for every briefing text was trimmed when it was written. The
  dict that \<open>compile_briefings\<close> passes holds the non-empty briefings in the order company,
  industry, financial, revenue.
\<close>

theorem compile_content_fallback:
  assumes "create_briefings sched s0 = Some (Inr s, evs)"
    and "compile_reply env = Raises"
    and "references s = [] \<or> (\<exists>t. references_section env = Inr t)"
  shows "compile_content ectx s (available_briefings s) env
           = Inr (join ''\<newline>\<newline>'' (map snd (available_briefings s)))
       \<and> fst (collect_briefings briefing_keys s [] msg) = available_briefings s"
proof -
  have "\<And>c k. (c, k) \<in> set briefing_keys \<Longrightarrow> \<exists>t. get_briefing s k = Some t \<and> trimmed t"
    using create_briefings_trimmed[OF assms(1)] briefing_keys_categories by blast
  then have "\<forall>p \<in> set (available_briefings s). snd p \<noteq> [] \<and> trimmed (snd p)"
    by (rule available_briefings_trimmed)
  then have "\<forall>x \<in> set (map snd (available_briefings s)). x \<noteq> [] \<and> trimmed x"
    by simp
  then have "trimmed (join ''\<newline>\<newline>'' (map snd (available_briefings s)))"
    by (rule join_trimmed)
  then have "strip (join ''\<newline>\<newline>'' (map snd (available_briefings s)))
               = join ''\<newline>\<newline>'' (map snd (available_briefings s))"
    by (rule strip_trimmed_id)
  with compile_content_handler[OF assms(2,3), of ectx "available_briefings s"] show ?thesis
    by (simp add: collect_briefings_available)
qed

text \<open>
  The example state under a schedule whose two backend calls return texts with whitespace
  around them, then the compilation call raising: both texts as the briefing node stored
  them, a blank line between them.
\<close>

theorem compile_content_fallback_witness:
  "\<exists>s evs. create_briefings padded_schedule example_state = Some (Inr s, evs)
      \<and> compile_reply failing_collaborators = Raises
      \<and> references s = []
      \<and> available_briefings s = [(''company'', ''Acme makes tools''), (''financial'', ''Raised 5M'')]
      \<and> compile_content (make_editor_context s) s (available_briefings s) failing_collaborators
          = Inr ''Acme makes tools\<newline>\<newline>Raised 5M''"
proof -
  from padded_run obtain s evs
    where run: "create_briefings padded_schedule example_state = Some (Inr s, evs)"
      and texts: "company_briefing s = Some ''Acme makes tools''"
        "financial_briefing s = Some ''Raised 5M''"
        "industry_briefing s = Some []" "revenue_briefing s = Some []"
      and norefs: "references s = []"
    by blast
  have raises: "compile_reply failing_collaborators = Raises"
    by (simp add: failing_collaborators_def)
  from norefs have reached: "references s = [] \<or> (\<exists>t. references_section failing_collaborators = Inr t)"
    by simp
  have available: "available_briefings s = [(''company'', ''Acme makes tools''), (''financial'', ''Raised 5M'')]"
    using texts by (simp add: available_briefings_def briefing_keys_def get_briefing_def)
  from compile_content_fallback[OF run raises reached, of "make_editor_context s"]
  have "compile_content (make_editor_context s) s (available_briefings s) failing_collaborators
          = Inr ''Acme makes tools\<newline>\<newline>Raised 5M''"
    by (simp add: available)
  with run raises norefs available show ?thesis by blast
qed

subsection \<open>The streaming call\<close>

lemma sweep_chunks_raises:
  "raises_before_stop chunks \<Longrightarrow> \<exists>e. fst (sweep_chunks s chunks acc buf) = Inl e"
  by (induction s chunks acc buf rule: sweep_chunks.induct) (auto split: sum.splits)

lemma two_briefings_available:
  "available_briefings two_briefings_state
     = [(''company'', ''Acme makes tools''), (''financial'', ''Raised 5M'')]"
  by (simp add: available_briefings_def briefing_keys_def get_briefing_def two_briefings_state_def
      empty_state_def)

text \<open>
  Claim C7, as the code has it. When the streaming call raises, at its start or while the
  stream is read before the stop chunk, \<open>content_sweep\<close> raises nothing and returns the
  document it was given, trimmed of whitespace at both ends: the document unchanged when
  it has no whitespace at its ends.
\<close>

theorem content_sweep_fallback:
  assumes "st = CreateRaises \<or> (\<exists>chunks. st = Opened chunks \<and> raises_before_stop chunks)"
  shows "fst (content_sweep ectx s doc st) = Inr (strip doc)
       \<and> (trimmed doc \<longrightarrow> fst (content_sweep ectx s doc st) = Inr doc)"
proof -
  have "fst (content_sweep ectx s doc st) = Inr (strip doc)"
  proof (cases st)
    case CreateRaises
    then show ?thesis by (simp add: content_sweep_def)
  next
    case (Opened chunks)
    with assms have "raises_before_stop chunks" by simp
    then obtain e where "fst (sweep_chunks s chunks [] []) = Inl e"
      using sweep_chunks_raises by blast
    with Opened show ?thesis by (simp add: content_sweep_def)
  qed
  then show ?thesis by (simp add: strip_trimmed_id)
qed

text \<open>A stream that breaks after its first chunk: the input document comes back.\<close>

theorem content_sweep_fallback_witness:
  "raises_before_stop [Delta (Some ''# Acme''), Broken]
   \<and> fst (content_sweep (make_editor_context empty_state) empty_state ''# Acme report''
            (Opened [Delta (Some ''# Acme''), Broken])) = Inr ''# Acme report''"
proof -
  have breaks: "raises_before_stop [Delta (Some ''# Acme''), Broken]" by simp
  then have failing: "Opened [Delta (Some ''# Acme''), Broken] = CreateRaises
      \<or> (\<exists>chunks. Opened [Delta (Some ''# Acme''), Broken] = Opened chunks \<and> raises_before_stop chunks)"
    by simp
  have tr: "trimmed ''# Acme report''" by (simp add: trimmed_def isspace_def)
  from content_sweep_fallback[OF failing, of "make_editor_context empty_state" empty_state
      "''# Acme report''"] tr breaks
  show ?thesis by blast
qed

text \<open>
  A document with a blank before it and a line break after it, the streaming call raising:
  what comes back has lost both, so it is not the input unchanged.
\<close>

theorem content_sweep_fallback_counterexample:
  "content_sweep (make_editor_context empty_state) empty_state '' # Acme report\<newline>'' CreateRaises
     = (Inr ''# Acme report'', [])"
  by (simp add: content_sweep_def strip_def isspace_def)

section \<open>The Editor stage\<close>

lemma content_sweep_returns: "\<exists>r. fst (content_sweep ectx s doc st) = Inr r"
  by (auto simp: content_sweep_def split: stream.splits sum.splits)

text \<open>
  \<open>edit_report\<close> raises nothing; it leaves the state as it is or stores a report that is
  not blank.
\<close>

lemma edit_report_cases:
  "\<exists>res s2 evs. edit_report ectx s brs env = (Inr res, s2, evs)
      \<and> (s2 = s \<or> (\<exists>r. strip r \<noteq> [] \<and> s2 = store_report r s))"
proof (cases "editor_event s ''Compiling initial research report'' ''compilation''")
  case (Pair r1 ev1)
  show ?thesis
  proof (cases r1)
    case (Inl e)
    with Pair show ?thesis by (simp add: edit_report_def)
  next
    case u1: (Inr u)
    show ?thesis
    proof (cases "compile_content ectx s brs env")
      case (Inl e)
      with Pair u1 show ?thesis by (simp add: edit_report_def)
    next
      case (Inr edited_report)
      show ?thesis
      proof (cases "edited_report = []")
        case True
        with Pair u1 Inr show ?thesis by (simp add: edit_report_def)
      next
        case False
        from content_sweep_returns obtain r
          where r: "fst (content_sweep ectx s edited_report (sweep_reply env)) = Inr r" by blast
        show ?thesis
        proof (cases "strip r = []")
          case True
          with Pair u1 Inr False r show ?thesis
            by (auto simp: edit_report_def Let_def split: prod.splits sum.splits)
        next
          case stored: False
          with Pair u1 Inr False r show ?thesis
            by (auto simp: edit_report_def Let_def split: prod.splits sum.splits)
        qed
      qed
    qed
  qed
qed

lemma collect_briefings_msg:
  "\<exists>more. snd (collect_briefings ks s acc msg) = msg @ more"
proof (induction ks arbitrary: acc msg)
  case Nil
  show ?case by simp
next
  case (Cons k ks)
  obtain c key where k: "k = (c, key)" by (cases k)
  show ?case
  proof (cases "get_briefing s key")
    case None
    from Cons.IH[of acc "msg @ [''No '' @ c @ '' briefing available'']"] show ?thesis
      using None k by auto
  next
    case (Some tx)
    show ?thesis
    proof (cases "tx = []")
      case True
      from Cons.IH[of acc "msg @ [''No '' @ c @ '' briefing available'']"] show ?thesis
        using Some True k by auto
    next
      case False
      from Cons.IH[of "dict_set c tx acc"
          "msg @ [''Found '' @ c @ '' briefing ('' @ string_of_nat (length tx) @ '' characters)'']"]
      show ?thesis using Some False k by auto
    qed
  qed
qed

lemma join_head: "\<exists>rest. join sep (x # xs) = x @ rest"
  by (cases xs) auto

text \<open>
  What \<open>compile_briefings\<close> returns when it returns: the state that \<open>edit_report\<close> left,
  with one more message, which starts with the line naming the company.
\<close>

lemma compile_briefings_cases:
  assumes "fst (compile_briefings s env) = Inr s1"
  shows "\<exists>msg s2. s1 = append_message (log_header (ec_company (make_editor_context s)) # msg) s2
      \<and> (s2 = s \<or> (\<exists>r. strip r \<noteq> [] \<and> s2 = store_report r s))"
proof -
  let ?ectx = "make_editor_context s"
  let ?found = "collect_briefings briefing_keys s [] [log_header (ec_company ?ectx)]"
  from collect_briefings_msg[of briefing_keys s "[]" "[log_header (ec_company ?ectx)]"] obtain more
    where more: "snd ?found = log_header (ec_company ?ectx) # more" by auto
  show ?thesis
  proof (cases "fst ?found = []")
    case True
    with assms have "s1 = append_message (snd ?found @ [''\<newline> No briefing sections available to compile'']) s"
      by (auto simp: compile_briefings_def Let_def split: prod.splits sum.splits)
    with more show ?thesis by auto
  next
    case False
    from edit_report_cases[of ?ectx s "fst ?found" env] obtain res s2 evs
      where er: "edit_report ?ectx s (fst ?found) env = (Inr res, s2, evs)"
        and s2: "s2 = s \<or> (\<exists>r. strip r \<noteq> [] \<and> s2 = store_report r s)"
      by blast
    from assms False er have "s1 = append_message (snd ?found) s2"
      by (auto simp: compile_briefings_def Let_def split: prod.splits sum.splits)
    with more s2 show ?thesis by auto
  qed
qed

lemma editor_run_cases:
  assumes "fst (editor_run s env) = Inr s'"
  shows "\<exists>msg s2. (s2 = s \<or> (\<exists>r. strip r \<noteq> [] \<and> s2 = store_report r s))
     \<and> s' = (case report s2 of
                Some r \<Rightarrow> mirror_report r (append_message (log_header (ec_company (make_editor_context s)) # msg) s2)
              | None \<Rightarrow> append_message (log_header (ec_company (make_editor_context s)) # msg) s2)"
proof -
  from assms obtain s1 where s1: "fst (compile_briefings s env) = Inr s1"
    and s': "s' = (case report s1 of Some r \<Rightarrow> mirror_report r s1 | None \<Rightarrow> s1)"
    by (auto simp: editor_run_def split: prod.splits sum.splits option.splits)
  from compile_briefings_cases[OF s1] obtain msg s2
    where cb: "s1 = append_message (log_header (ec_company (make_editor_context s)) # msg) s2"
      and s2: "s2 = s \<or> (\<exists>r. strip r \<noteq> [] \<and> s2 = store_report r s)"
    by blast
  have "report s1 = report s2" using cb by (simp add: append_message_def)
  with s' cb s2 show ?thesis by auto
qed

text \<open>
  The two sends of lines 45 to 56 and 74 to 85 are the only way out of \<open>compile_briefings\<close>
  by an exception: when they deliver, the method returns, whatever its collaborators do.
\<close>

lemma compile_briefings_returns:
  assumes "\<And>msg substep. fst (editor_event s msg substep) = Inr ()"
  shows "\<exists>s1. fst (compile_briefings s env) = Inr s1"
proof -
  have sent: "\<And>msg substep r evs. editor_event s msg substep = (r, evs) \<Longrightarrow> r = Inr ()"
    using assms by (metis fst_conv)
  show ?thesis
    by (auto simp: compile_briefings_def Let_def split: prod.splits sum.splits dest: sent)
qed

lemma editor_run_returns_when_delivered:
  assumes "\<And>msg substep. fst (editor_event s msg substep) = Inr ()"
  shows "\<exists>s' m rest. fst (editor_run s env) = Inr s'
      \<and> messages s' = Some ((case messages s of Some ms \<Rightarrow> ms | None \<Rightarrow> []) @ [m])
      \<and> m = log_header (case company s of Some c \<Rightarrow> c | None \<Rightarrow> ''Unknown Company'') @ rest
      \<and> (report s' = report s \<or> (\<exists>r. report s' = Some r \<and> strip r \<noteq> []))"
proof -
  let ?h = "log_header (ec_company (make_editor_context s))"
  from compile_briefings_returns[OF assms, of env] obtain s1
    where "fst (compile_briefings s env) = Inr s1" by blast
  then obtain s' where ret: "fst (editor_run s env) = Inr s'"
    by (cases "compile_briefings s env"; cases "report s1") (auto simp: editor_run_def)
  from editor_run_cases[OF ret] obtain msg s2
    where s2: "s2 = s \<or> (\<exists>r. strip r \<noteq> [] \<and> s2 = store_report r s)"
      and s': "s' = (case report s2 of
                  Some r \<Rightarrow> mirror_report r (append_message (?h # msg) s2)
                | None \<Rightarrow> append_message (?h # msg) s2)"
    by blast
  obtain rest where rest: "join ''\<newline>'' (?h # msg) = ?h @ rest"
    using join_head by blast
  have h: "?h = log_header (case company s of Some c \<Rightarrow> c | None \<Rightarrow> ''Unknown Company'')"
    by (simp add: make_editor_context_def)
  have prev: "messages s2 = messages s"
    using s2 by (auto simp: store_report_def mirror_report_def)
  have msgs: "messages s' = Some ((case messages s of Some ms \<Rightarrow> ms | None \<Rightarrow> []) @ [join ''\<newline>'' (?h # msg)])"
    using prev s' by (simp add: append_message_def mirror_report_def split: option.splits)
  have rep: "report s' = report s2"
    using s' by (simp add: append_message_def mirror_report_def split: option.splits)
  have "report s2 = report s \<or> (\<exists>r. report s2 = Some r \<and> strip r \<noteq> [])"
    using s2 by (auto simp: store_report_def mirror_report_def)
  with rep have rep': "report s' = report s \<or> (\<exists>r. report s' = Some r \<and> strip r \<noteq> [])"
    by simp
  show ?thesis
    using ret msgs rest h rep' by (metis (no_types, lifting))
qed

text \<open>
  Claim C9 does not hold of the code. The state holds two briefings, a job id and an
  observer whose \<open>send_status_update\<close> raises. The first send of \<open>compile_briefings\<close>
  (line 48) is outside the \<open>try\<close> block of line 100 and before line 108: \<open>Editor.run\<close>
  raises, returns no state and appends no message, though no compilation or normalization
  step has been reached. The sends of \<open>edit_report\<close> and \<open>content_sweep\<close> are inside
  \<open>try\<close> blocks.
\<close>

theorem editor_run_raises_on_send:
  "editor_run raising_observer_state failing_collaborators = (Inl SendError, [])"
  by (simp add: editor_run_def compile_briefings_def editor_event_def send_status_update_def
      raising_def raising_observer_state_def two_briefings_state_def empty_state_def Let_def)

text \<open>
  Claim C10, as the code has it. After \<open>Editor.run\<close> returns, whenever the state holds a
  report, \<open>state['editor']\<close> is a dict whose \<open>'report'\<close> entry equals it; and the report is
  not blank unless it is the value the state already held on entry: the Editor itself stores
  no blank report, so the report is not blank whenever the state held none, or one that was
  not blank, on entry.
\<close>

theorem editor_run_report_mirrored:
  assumes "fst (editor_run s env) = Inr s'" and "report s' = Some r"
  shows "(\<exists>d. editor s' = Some (EditorDict d) \<and> d ''report'' = Some r)
       \<and> (report s = Some r \<or> strip r \<noteq> [])
       \<and> ((report s = None \<or> (\<exists>r0. report s = Some r0 \<and> strip r0 \<noteq> [])) \<longrightarrow> strip r \<noteq> [])"
proof -
  let ?h = "log_header (ec_company (make_editor_context s))"
  from editor_run_cases[OF assms(1)] obtain msg s2
    where s2: "s2 = s \<or> (\<exists>r. strip r \<noteq> [] \<and> s2 = store_report r s)"
      and s': "s' = (case report s2 of
                  Some r \<Rightarrow> mirror_report r (append_message (?h # msg) s2)
                | None \<Rightarrow> append_message (?h # msg) s2)"
    by blast
  have rep: "report s' = report s2"
    using s' by (simp add: append_message_def mirror_report_def split: option.splits)
  with assms(2) have r2: "report s2 = Some r" by simp
  with s' have "s' = mirror_report r (append_message (?h # msg) s2)" by simp
  then have mirrored: "\<exists>d. editor s' = Some (EditorDict d) \<and> d ''report'' = Some r"
    by (simp add: mirror_report_def)
  have origin: "report s = Some r \<or> strip r \<noteq> []"
    using s2 r2 by (auto simp: store_report_def mirror_report_def)
  from mirrored origin show ?thesis by auto
qed

text \<open>Two runs of the Editor, evaluated.\<close>

lemmas editor_defs = editor_run_def compile_briefings_def edit_report_def compile_content_def
  content_sweep_def response_content_def collect_briefings.simps briefing_keys_def get_briefing_def
  make_editor_context_def editor_event_def send_status_update_def sweep_chunks.simps report_chunk_def store_report_def mirror_report_def
  append_message_def editor_complete_def log_header_def Let_def

lemma run_two: "fst (editor_run two_briefings_state failing_collaborators)
  = Inr (two_briefings_state\<lparr>report := Some ''Acme makes tools\<newline>\<newline>Raised 5M'',
       status := Some ''editor_complete'',
       editor := Some (EditorDict [''report'' \<mapsto> ''Acme makes tools\<newline>\<newline>Raised 5M'']),
       messages := Some ['' Compiling final report for Acme...\<newline>Found company briefing (16 characters)\<newline>No industry briefing available\<newline>Found financial briefing (9 characters)\<newline>No revenue briefing available'']\<rparr>)"
  by (simp add: editor_defs two_briefings_state_def empty_state_def failing_collaborators_def
      strip_def isspace_def string_of_nat.simps)

lemma run_blank: "fst (editor_run blank_report_state failing_collaborators)
  = Inr (blank_report_state\<lparr>
       editor := Some (EditorDict [''report'' \<mapsto> '''']),
       messages := Some ['' Compiling final report for Unknown Company...\<newline>No company briefing available\<newline>No industry briefing available\<newline>No financial briefing available\<newline>No revenue briefing available\<newline>\<newline> No briefing sections available to compile'']\<rparr>)"
  by (simp add: editor_defs blank_report_state_def empty_state_def failing_collaborators_def
      strip_def isspace_def string_of_nat.simps)

text \<open>The same run: the report is mirrored under \<open>editor\<close> and is not blank.\<close>

theorem editor_run_report_mirrored_witness:
  "\<exists>s' d. fst (editor_run two_briefings_state failing_collaborators) = Inr s'
      \<and> report s' = Some ''Acme makes tools\<newline>\<newline>Raised 5M''
      \<and> editor s' = Some (EditorDict d)
      \<and> d ''report'' = Some ''Acme makes tools\<newline>\<newline>Raised 5M''
      \<and> strip ''Acme makes tools\<newline>\<newline>Raised 5M'' \<noteq> []"
proof -
  let ?s' = "two_briefings_state\<lparr>report := Some ''Acme makes tools\<newline>\<newline>Raised 5M'',
       status := Some ''editor_complete'',
       editor := Some (EditorDict [''report'' \<mapsto> ''Acme makes tools\<newline>\<newline>Raised 5M'']),
       messages := Some ['' Compiling final report for Acme...\<newline>Found company briefing (16 characters)\<newline>No industry briefing available\<newline>Found financial briefing (9 characters)\<newline>No revenue briefing available'']\<rparr>"
  have rep: "report ?s' = Some ''Acme makes tools\<newline>\<newline>Raised 5M''" by simp
  have entry: "report two_briefings_state = None"
    by (simp add: two_briefings_state_def empty_state_def)
  from editor_run_report_mirrored[OF run_two rep] entry
  obtain d where "editor ?s' = Some (EditorDict d)"
      "d ''report'' = Some ''Acme makes tools\<newline>\<newline>Raised 5M''"
      "strip ''Acme makes tools\<newline>\<newline>Raised 5M'' \<noteq> []"
    by auto
  with run_two rep show ?thesis by blast
qed

text \<open>
  A state that holds the empty report on entry, and no briefing: nothing is compiled, and
  after the run the state still holds a report, which is blank.
\<close>

theorem editor_run_blank_report_counterexample:
  "\<exists>s'. fst (editor_run blank_report_state failing_collaborators) = Inr s'
      \<and> report s' = Some [] \<and> strip [] = []"
  by (rule exI, rule conjI, rule run_blank) (simp add: blank_report_state_def strip_def)

end
